theory Spec2Isabelle
  imports Complex_Main
begin

section \<open>Hierarchical backtest executors (qlib/contrib/backtest)\<close>

text \<open>
  A shallow embedding of \<^verbatim>\<open>qlib/contrib/backtest/executor.py\<close> (the classes
  \<^verbatim>\<open>BaseExecutor\<close>, \<^verbatim>\<open>SplitExecutor\<close>, \<^verbatim>\<open>SimulatorExecutor\<close>) and of
  \<^verbatim>\<open>get_exchange\<close> from \<^verbatim>\<open>qlib/contrib/backtest/__init__.py\<close>.

  Python objects that the executors own (their attributes, the nested executor, the nested
  strategy) are values inside the executor value; every method returns the updated executor.
  Everything the executors reach only through a reference (accounts, exchanges, market data) lives
  in a world of type \<open>'w\<close> that is threaded through every call. An exception is a value
  \<open>Inl e\<close>; the executor and the world that the exception leaves behind are returned with it,
  since Python keeps the mutations made before a raise.
\<close>

subsection \<open>Errors\<close>

datatype error =
    NotImplementedError string
  | AttributeError string
  | IndexError
  | CalendarExhausted
  | MisalignedRange
  | InvalidConfig

subsection \<open>Trade calendar\<close>

type_synonym timestamp = int
type_synonym ref = nat

text \<open>
  Modelled from the spec: \<^verbatim>\<open>TradeCalendarManager\<close> (module \<^verbatim>\<open>backtest/utils.py\<close>) is
  not among the sources. Spec 3 and 4.1: the calendar owns a frequency, a range and a
  \<open>current_index\<close> with \<open>0 \<le> current_index \<le> bar_count\<close>; construction partitions the
  half-open, non-empty range into bars of the frequency's fixed length, a remainder being
  \<open>MisalignedRange\<close>; \<open>step\<close> increments the index and fails with \<open>CalendarExhausted\<close> when
  finished; the bar bounds are those of bar \<open>current_index - 1\<close>, or of the upcoming bar before
  any step. The length of a bar of a given frequency string is the parameter \<open>flen\<close>
  (\<open>None\<close> for an unsupported frequency string).
\<close>

record calendar =
  frequency :: string
  range_start :: timestamp
  bar_length :: nat
  bar_count :: nat
  current_index :: nat

definition TradeCalendarManager ::
  "(string \<Rightarrow> nat option) \<Rightarrow> string \<Rightarrow> timestamp \<Rightarrow> timestamp \<Rightarrow> error + calendar" where
  "TradeCalendarManager flen freq start_time end_time =
     (case flen freq of
        None \<Rightarrow> Inl InvalidConfig
      | Some l \<Rightarrow>
          if l = 0 \<or> end_time \<le> start_time then Inl InvalidConfig
          else if (end_time - start_time) mod int l \<noteq> 0 then Inl MisalignedRange
          else Inr \<lparr>frequency = freq, range_start = start_time, bar_length = l,
                    bar_count = nat ((end_time - start_time) div int l), current_index = 0\<rparr>)"

text \<open>
  \<open>finished\<close> is \<open>current_index = bar_count\<close> on every calendar that satisfies the invariant
  \<open>current_index \<le> bar_count\<close> (lemma \<open>cal_finished_iff\<close> below); the record type also has
  values outside the invariant, and the index being capped at \<open>bar_count\<close> they count as
  finished.
\<close>

definition cal_finished :: "calendar \<Rightarrow> bool" where
  "cal_finished c = (bar_count c \<le> current_index c)"

definition step :: "calendar \<Rightarrow> error + calendar" where
  "step c = (if cal_finished c then Inl CalendarExhausted
             else Inr (c\<lparr>current_index := current_index c + 1\<rparr>))"

definition get_trade_index :: "calendar \<Rightarrow> nat" where
  "get_trade_index c = (if current_index c = 0 then 0 else current_index c - 1)"

definition get_calendar_time :: "calendar \<Rightarrow> nat \<Rightarrow> timestamp \<times> timestamp" where
  "get_calendar_time c i =
     (range_start c + int i * int (bar_length c),
      range_start c + (int i + 1) * int (bar_length c))"

subsection \<open>Orders, decisions, execution results\<close>

text \<open>
  Modelled from the spec: \<^verbatim>\<open>Order\<close> (module \<^verbatim>\<open>backtest/order.py\<close>) is not among the
  sources. Spec 3: an order is an instrument, a direction, a requested amount and a price
  factor, immutable once constructed; a decision is an ordered sequence of orders. The executors
  never compute with the numbers of an order or of a deal, they only pass them on.
\<close>

datatype order_direction = SELL | BUY

record order =
  stock_id :: string
  direction :: order_direction
  amount :: real
  factor :: real

type_synonym decision = "order list"

text \<open>One entry of \<^verbatim>\<open>execute_result\<close>: \<^verbatim>\<open>(order, trade_val, trade_cost, trade_price)\<close>.\<close>

type_synonym match_result = "order \<times> real \<times> real \<times> real"
type_synonym execute_result = "match_result list"

subsection \<open>Collaborators outside the sources\<close>

text \<open>
  The exchange, the account, the strategy, \<^verbatim>\<open>parse_freq\<close> and the calendar's frequency
  table are code of the repository that is not among the sources. Their methods are the fields
  of an environment that every function below takes as its first argument; nothing is assumed
  about them beyond their types. Accounts and exchanges are referred to by reference
  (\<open>ref\<close>), their state is part of the world \<open>'w\<close>; a strategy object is owned by its
  executor and has its state \<open>'s\<close> stored there. \<open>'v\<close> is the type of the values read from an
  account for a report.

  \<^item> \<open>check_order x ord\<close>: \<^verbatim>\<open>trade_exchange.check_order(order)\<close>; by spec 4.2 and 6 a pure
    lookup of market data.
  \<^item> \<open>deal_order x ord a w\<close>: \<^verbatim>\<open>trade_exchange.deal_order(order, trade_account=a)\<close>, returning
    \<^verbatim>\<open>(trade_val, trade_cost, trade_price)\<close> and the world it leaves.
  \<^item> \<open>update_bar_count a w\<close>, \<open>update_bar_report a start end x w\<close>, \<open>account_reset a freq
    init_report w\<close>, \<open>generate_report_dataframe a w\<close>, \<open>get_positions a w\<close>: the methods of
    \<^verbatim>\<open>Account\<close> (the report frame is read through \<^verbatim>\<open>trade_account.report\<close>).
  \<^item> \<open>copy_account a w\<close>: \<^verbatim>\<open>copy.copy\<close> applied to the account behind \<open>a\<close>; it returns
    the reference of the new object.
  \<^item> \<open>dict_get d k w\<close>, \<open>dict_update d d' w\<close>: the dict that is handed around as
    \<^verbatim>\<open>common_infra\<close> is an object of the world as well, which the executors keep by
    reference and update in place. \<open>dict_get d k w\<close> is \<^verbatim>\<open>d.get(k)\<close>, so that
    \<^verbatim>\<open>k in d\<close> is \<open>dict_get d k w \<noteq> None\<close>; \<open>dict_update d d' w\<close> is
    \<^verbatim>\<open>d.update(d')\<close>.
  \<^item> \<open>strategy_reset level_infra outer_trade_decision s\<close>,
    \<open>strategy_reset_common_infra common_infra s w\<close>,
    \<open>generate_trade_decision s execute_result cal w\<close>: the methods of \<^verbatim>\<open>BaseStrategy\<close>. The
    strategy holds, through \<^verbatim>\<open>level_infra\<close>, a reference to the calendar object of the inner
    executor; the model hands it the current value of that calendar at each call.
\<close>

record ('s, 'w, 'v) env =
  freq_len :: "string \<Rightarrow> nat option"
  parse_freq :: "string \<Rightarrow> (nat \<times> string) option"
  check_order :: "ref \<Rightarrow> order \<Rightarrow> bool"
  deal_order :: "ref \<Rightarrow> order \<Rightarrow> ref \<Rightarrow> 'w \<Rightarrow> (real \<times> real \<times> real) \<times> 'w"
  update_bar_count :: "ref \<Rightarrow> 'w \<Rightarrow> 'w"
  update_bar_report :: "ref \<Rightarrow> timestamp \<Rightarrow> timestamp \<Rightarrow> ref \<Rightarrow> 'w \<Rightarrow> 'w"
  copy_account :: "ref \<Rightarrow> 'w \<Rightarrow> ref \<times> 'w"
  dict_get :: "ref \<Rightarrow> string \<Rightarrow> 'w \<Rightarrow> ref option"
  dict_update :: "ref \<Rightarrow> ref \<Rightarrow> 'w \<Rightarrow> 'w"
  account_reset :: "ref \<Rightarrow> string \<Rightarrow> bool \<Rightarrow> 'w \<Rightarrow> 'w"
  generate_report_dataframe :: "ref \<Rightarrow> 'w \<Rightarrow> 'v"
  get_positions :: "ref \<Rightarrow> 'w \<Rightarrow> 'v"
  strategy_reset :: "calendar \<Rightarrow> decision \<Rightarrow> 's \<Rightarrow> 's"
  strategy_reset_common_infra :: "ref \<Rightarrow> 's \<Rightarrow> 'w \<Rightarrow> 's \<times> 'w"
  generate_trade_decision ::
    "'s \<Rightarrow> execute_result option \<Rightarrow> calendar \<Rightarrow> 'w \<Rightarrow> decision \<times> 's \<times> 'w"

subsection \<open>Executor objects\<close>

text \<open>
  The attributes of an executor. \<^verbatim>\<open>common_infra\<close>, \<^verbatim>\<open>trade_account\<close> and
  \<^verbatim>\<open>trade_exchange\<close> refer to objects of the world: the attribute holds the reference.
  An attribute that \<^verbatim>\<open>hasattr\<close> may find missing (these three) is an option.
\<close>

record base =
  time_per_step :: string
  generate_report :: bool
  verbose :: bool
  track_data :: bool
  calendar :: calendar
  common_infra :: "ref option"
  trade_account :: "ref option"
  trade_exchange :: "ref option"

datatype 's executor =
    BaseExecutor base
  | SimulatorExecutor base
  | SplitExecutor base "'s executor" 's

fun attrs :: "'s executor \<Rightarrow> base" where
  "attrs (BaseExecutor b) = b"
| "attrs (SimulatorExecutor b) = b"
| "attrs (SplitExecutor b inner_executor inner_strategy) = b"

fun with_attrs :: "'s executor \<Rightarrow> base \<Rightarrow> 's executor" where
  "with_attrs (BaseExecutor _) b = BaseExecutor b"
| "with_attrs (SimulatorExecutor _) b = SimulatorExecutor b"
| "with_attrs (SplitExecutor _ inner_executor inner_strategy) b =
     SplitExecutor b inner_executor inner_strategy"

fun depth :: "'s executor \<Rightarrow> nat" where
  "depth (BaseExecutor b) = 0"
| "depth (SimulatorExecutor b) = 0"
| "depth (SplitExecutor b inner_executor inner_strategy) = Suc (depth inner_executor)"

definition remaining :: "'s executor \<Rightarrow> nat" where
  "remaining ex = bar_count (calendar (attrs ex)) - current_index (calendar (attrs ex))"

subsection \<open>\<^verbatim>\<open>reset_common_infra\<close>, \<^verbatim>\<open>reset\<close>, \<^verbatim>\<open>get_level_infra\<close>, \<^verbatim>\<open>finished\<close>\<close>

text \<open>
  \<^verbatim>\<open>BaseExecutor.reset_common_infra\<close>. An executor without the attribute
  \<^verbatim>\<open>common_infra\<close> binds it to the dict it is given, by reference; an executor that has
  the attribute keeps the dict it refers to and updates that dict in place with the one given.
  When the dict given has the key \<^verbatim>\<open>trade_account\<close>, the executor takes
  \<^verbatim>\<open>copy.copy\<close> of that account and resets the copy with its own frequency and
  \<^verbatim>\<open>init_report=True\<close>.
\<close>

definition base_reset_common_infra ::
  "('s, 'w, 'v) env \<Rightarrow> ref \<Rightarrow> base \<Rightarrow> 'w \<Rightarrow> base \<times> 'w" where
  "base_reset_common_infra env ci b w =
     (case (case common_infra b of
              None \<Rightarrow> (b\<lparr>common_infra := Some ci\<rparr>, w)
            | Some self_common_infra \<Rightarrow> (b, dict_update env self_common_infra ci w)) of
        (b1, w1) \<Rightarrow>
          (case dict_get env ci ''trade_account'' w1 of
             None \<Rightarrow> (b1, w1)
           | Some acc \<Rightarrow>
               (case copy_account env acc w1 of
                  (a, w2) \<Rightarrow>
                    (b1\<lparr>trade_account := Some a\<rparr>,
                     account_reset env a (time_per_step b1) True w2))))"

text \<open>
  The overrides: \<^verbatim>\<open>SimulatorExecutor\<close> also takes the exchange of the dict;
  \<^verbatim>\<open>SplitExecutor\<close> takes it only when it generates a report, and hands the dict on to its
  inner executor and then to its inner strategy.
\<close>

fun reset_common_infra ::
  "('s, 'w, 'v) env \<Rightarrow> ref \<Rightarrow> 's executor \<Rightarrow> 'w \<Rightarrow> 's executor \<times> 'w" where
  "reset_common_infra env ci (BaseExecutor b) w =
     (case base_reset_common_infra env ci b w of (b1, w1) \<Rightarrow> (BaseExecutor b1, w1))"
| "reset_common_infra env ci (SimulatorExecutor b) w =
     (case base_reset_common_infra env ci b w of
        (b1, w1) \<Rightarrow>
          (SimulatorExecutor
             (case dict_get env ci ''trade_exchange'' w1 of
                None \<Rightarrow> b1
              | Some x \<Rightarrow> b1\<lparr>trade_exchange := Some x\<rparr>), w1))"
| "reset_common_infra env ci (SplitExecutor b inner_executor inner_strategy) w =
     (case base_reset_common_infra env ci b w of
        (b1, w1) \<Rightarrow>
          (let b2 = (if generate_report b1 then
                       (case dict_get env ci ''trade_exchange'' w1 of
                          None \<Rightarrow> b1
                        | Some x \<Rightarrow> b1\<lparr>trade_exchange := Some x\<rparr>)
                     else b1)
           in case reset_common_infra env ci inner_executor w1 of
                (inner1, w2) \<Rightarrow>
                  (case strategy_reset_common_infra env ci inner_strategy w2 of
                     (strat1, w3) \<Rightarrow> (SplitExecutor b2 inner1 strat1, w3))))"

text \<open>
  \<^verbatim>\<open>BaseExecutor.reset(track_data=None, common_infra=None, **kwargs)\<close>, inherited by both
  subclasses. The keyword arguments \<^verbatim>\<open>start_time\<close> and \<^verbatim>\<open>end_time\<close> are passed together
  at every call site of the sources; \<open>window = None\<close> stands for a call without them. The
  calendar is rebuilt before the infrastructure is reset, so a calendar that cannot be built
  leaves the new \<^verbatim>\<open>track_data\<close> behind and nothing else.
\<close>

definition reset ::
  "('s, 'w, 'v) env \<Rightarrow> bool option \<Rightarrow> ref option \<Rightarrow> (timestamp \<times> timestamp) option
     \<Rightarrow> 's executor \<Rightarrow> 'w \<Rightarrow> error option \<times> 's executor \<times> 'w" where
  "reset env td ci window ex w =
     (let b1 = (case td of None \<Rightarrow> attrs ex | Some t \<Rightarrow> (attrs ex)\<lparr>track_data := t\<rparr>) in
      case (case window of
              None \<Rightarrow> Inr b1
            | Some (start_time, end_time) \<Rightarrow>
                (case TradeCalendarManager (freq_len env) (time_per_step b1) start_time end_time of
                   Inl e \<Rightarrow> Inl e
                 | Inr c \<Rightarrow> Inr (b1\<lparr>calendar := c\<rparr>))) of
        Inl e \<Rightarrow> (Some e, with_attrs ex b1, w)
      | Inr b2 \<Rightarrow>
          (case ci of
             None \<Rightarrow> (None, with_attrs ex b2, w)
           | Some i \<Rightarrow>
               (case reset_common_infra env i (with_attrs ex b2) w of
                  (ex1, w1) \<Rightarrow> (None, ex1, w1))))"

definition get_level_infra :: "'s executor \<Rightarrow> calendar" where
  "get_level_infra ex = calendar (attrs ex)"

definition finished :: "'s executor \<Rightarrow> bool" where
  "finished ex = cal_finished (calendar (attrs ex))"

subsection \<open>\<^verbatim>\<open>execute\<close>\<close>

text \<open>
  The \<^verbatim>\<open>for\<close> loop of \<^verbatim>\<open>SimulatorExecutor.execute\<close>, with the result list and the world
  as accumulators. \<^verbatim>\<open>self.trade_exchange\<close> is looked up for every order and
  \<^verbatim>\<open>self.trade_account\<close> for every order that passes the check. The branch of a rejected
  order only prints when \<^verbatim>\<open>verbose\<close> is set; what is printed is not part of the model.
\<close>

fun deal_orders ::
  "('s, 'w, 'v) env \<Rightarrow> base \<Rightarrow> decision \<Rightarrow> execute_result \<Rightarrow> 'w
     \<Rightarrow> (error + execute_result) \<times> 'w" where
  "deal_orders env b [] execute_result w = (Inr execute_result, w)"
| "deal_orders env b (ord # rest) execute_result w =
     (case trade_exchange b of
        None \<Rightarrow> (Inl (AttributeError ''trade_exchange''), w)
      | Some x \<Rightarrow>
          if check_order env x ord then
            (case trade_account b of
               None \<Rightarrow> (Inl (AttributeError ''trade_account''), w)
             | Some a \<Rightarrow>
                 (case deal_order env x ord a w of
                    ((trade_val, trade_cost, trade_price), w1) \<Rightarrow>
                      deal_orders env b rest
                        (execute_result @ [(ord, trade_val, trade_cost, trade_price)]) w1))
          else deal_orders env b rest execute_result w)"

text \<open>
  \<^verbatim>\<open>SplitExecutor._init_sub_trading\<close>: the inner executor is reset to the bounds of the bar
  the outer calendar has just stepped into, the inner strategy to the inner executor's level
  infrastructure and the outer decision.
\<close>

definition init_sub_trading ::
  "('s, 'w, 'v) env \<Rightarrow> base \<Rightarrow> 's executor \<Rightarrow> 's \<Rightarrow> decision \<Rightarrow> 'w
     \<Rightarrow> error option \<times> 's executor \<times> 's \<times> 'w" where
  "init_sub_trading env b inner_executor inner_strategy trade_decision w =
     (let trade_index = get_trade_index (calendar b);
          (trade_start_time, trade_end_time) = get_calendar_time (calendar b) trade_index
      in case reset env None None (Some (trade_start_time, trade_end_time)) inner_executor w of
           (Some e, inner1, w1) \<Rightarrow> (Some e, inner1, inner_strategy, w1)
         | (None, inner1, w1) \<Rightarrow>
             (None, inner1,
              strategy_reset env (get_level_infra inner1) trade_decision inner_strategy, w1))"

text \<open>\<^verbatim>\<open>SplitExecutor._update_trade_account\<close>.\<close>

definition update_trade_account ::
  "('s, 'w, 'v) env \<Rightarrow> base \<Rightarrow> 'w \<Rightarrow> error option \<times> 'w" where
  "update_trade_account env b w =
     (let trade_index = get_trade_index (calendar b);
          (trade_start_time, trade_end_time) = get_calendar_time (calendar b) trade_index
      in case trade_account b of
           None \<Rightarrow> (Some (AttributeError ''trade_account''), w)
         | Some a \<Rightarrow>
             (let w1 = update_bar_count env a w in
              if generate_report b then
                (case trade_exchange b of
                   None \<Rightarrow> (Some (AttributeError ''trade_exchange''), w1)
                 | Some x \<Rightarrow>
                     (None, update_bar_report env a trade_start_time trade_end_time x w1))
              else (None, w1)))"

text \<open>
  \<^verbatim>\<open>execute\<close> of the three classes, and the \<^verbatim>\<open>while\<close> loop of
  \<^verbatim>\<open>SplitExecutor.execute\<close> as \<open>inner_loop\<close>, whose arguments are the loop's variables:
  the inner executor and strategy, \<^verbatim>\<open>_inner_execute_result\<close> (\<open>None\<close> before the first
  iteration) and \<^verbatim>\<open>execute_result\<close>.
\<close>

function execute ::
    "('s, 'w, 'v) env \<Rightarrow> 's executor \<Rightarrow> decision \<Rightarrow> 'w
       \<Rightarrow> (error + execute_result) \<times> 's executor \<times> 'w"
  and inner_loop ::
    "('s, 'w, 'v) env \<Rightarrow> 's executor \<Rightarrow> 's \<Rightarrow> execute_result option \<Rightarrow> execute_result \<Rightarrow> 'w
       \<Rightarrow> (error + execute_result) \<times> 's executor \<times> 's \<times> 'w"
where
  "execute env (BaseExecutor b) trade_decision w =
     (Inl (NotImplementedError ''execute is not implemented!''), BaseExecutor b, w)"
| "execute env (SimulatorExecutor b) trade_decision w =
     (case step (calendar b) of
        Inl e \<Rightarrow> (Inl e, SimulatorExecutor b, w)
      | Inr c \<Rightarrow>
          (let b1 = b\<lparr>calendar := c\<rparr>;
               trade_index = get_trade_index (calendar b1);
               (trade_start_time, trade_end_time) = get_calendar_time (calendar b1) trade_index
           in case deal_orders env b1 trade_decision [] w of
                (Inl e, w1) \<Rightarrow> (Inl e, SimulatorExecutor b1, w1)
              | (Inr execute_result, w1) \<Rightarrow>
                  (case trade_account b1 of
                     None \<Rightarrow> (Inl (AttributeError ''trade_account''), SimulatorExecutor b1, w1)
                   | Some a \<Rightarrow>
                       (let w2 = update_bar_count env a w1 in
                        if generate_report b1 then
                          (case trade_exchange b1 of
                             None \<Rightarrow>
                               (Inl (AttributeError ''trade_exchange''), SimulatorExecutor b1, w2)
                           | Some x \<Rightarrow>
                               (Inr execute_result, SimulatorExecutor b1,
                                update_bar_report env a trade_start_time trade_end_time x w2))
                        else (Inr execute_result, SimulatorExecutor b1, w2)))))"
| "execute env (SplitExecutor b inner_executor inner_strategy) trade_decision w =
     (case step (calendar b) of
        Inl e \<Rightarrow> (Inl e, SplitExecutor b inner_executor inner_strategy, w)
      | Inr c \<Rightarrow>
          (let b1 = b\<lparr>calendar := c\<rparr> in
           case init_sub_trading env b1 inner_executor inner_strategy trade_decision w of
             (Some e, inner0, strat0, w0) \<Rightarrow> (Inl e, SplitExecutor b1 inner0 strat0, w0)
           | (None, inner0, strat0, w0) \<Rightarrow>
               (case inner_loop env inner0 strat0 None [] w0 of
                  (Inl e, inner1, strat1, w1) \<Rightarrow> (Inl e, SplitExecutor b1 inner1 strat1, w1)
                | (Inr execute_result, inner1, strat1, w1) \<Rightarrow>
                    (case trade_account b1 of
                       None \<Rightarrow> (Inr execute_result, SplitExecutor b1 inner1 strat1, w1)
                     | Some a \<Rightarrow>
                         (case update_trade_account env b1 w1 of
                            (Some e, w2) \<Rightarrow> (Inl e, SplitExecutor b1 inner1 strat1, w2)
                          | (None, w2) \<Rightarrow>
                              (Inr execute_result, SplitExecutor b1 inner1 strat1, w2))))))"
| "inner_loop env inner_executor inner_strategy inner_execute_result execute_result w =
     (if finished inner_executor then (Inr execute_result, inner_executor, inner_strategy, w)
      else
        (case generate_trade_decision env inner_strategy inner_execute_result
                (get_level_infra inner_executor) w of
           (inner_trade_decision, strat1, w1) \<Rightarrow>
             (case execute env inner_executor inner_trade_decision w1 of
                (Inl e, inner1, w2) \<Rightarrow> (Inl e, inner1, strat1, w2)
              | (Inr r, inner1, w2) \<Rightarrow>
                  inner_loop env inner1 strat1 (Some r) (execute_result @ r) w2)))"
  by pat_completeness auto

text \<open>
  Termination. Every successful \<open>execute\<close> steps the executor's own calendar and keeps the
  nesting depth, so the bars that remain in the inner calendar decrease with every iteration of
  the loop. Both facts are first proved on the domain of the functions.
\<close>

lemma step_Inr:
  "step c = Inr c' \<Longrightarrow>
     current_index c < bar_count c \<and> c' = c\<lparr>current_index := current_index c + 1\<rparr>"
  by (auto simp: step_def cal_finished_def split: if_splits)

lemma depth_with_attrs [simp]: "depth (with_attrs ex b) = depth ex"
  by (cases ex) auto

lemma attrs_with_attrs [simp]: "attrs (with_attrs ex b) = b"
  by (cases ex) auto

lemma reset_common_infra_depth:
  "reset_common_infra env ci ex w = (ex', w') \<Longrightarrow> depth ex' = depth ex"
  by (induction ex arbitrary: w ex' w')
     (auto simp: Let_def split: prod.splits option.splits)

lemma reset_depth: "reset env td ci window ex w = (r, ex', w') \<Longrightarrow> depth ex' = depth ex"
  by (auto simp: reset_def Let_def split: option.splits sum.splits prod.splits
           dest: reset_common_infra_depth)

lemma init_sub_trading_depth:
  "init_sub_trading env b inner strat d w = (r, inner0, strat0, w0) \<Longrightarrow> depth inner0 = depth inner"
  by (auto simp: init_sub_trading_def Let_def split: prod.splits option.splits dest: reset_depth)

lemma execute_inner_loop_partial:
  "execute_inner_loop_dom (Inl (env, ex, d, w)) \<Longrightarrow>
     (\<forall>r ex' w'. execute env ex d w = (r, ex', w') \<longrightarrow>
        depth ex' = depth ex \<and>
        (\<forall>res. r = Inr res \<longrightarrow> step (calendar (attrs ex)) = Inr (calendar (attrs ex'))))"
  "execute_inner_loop_dom (Inr (env, inner, strat, prev, acc, w)) \<Longrightarrow>
     (\<forall>r inner' strat' w'. inner_loop env inner strat prev acc w = (r, inner', strat', w') \<longrightarrow>
        depth inner' = depth inner)"
proof (induct rule: execute_inner_loop.pinduct)
  case (1 env b d w)
  then show ?case by (simp add: execute.psimps)
next
  case (2 env b d w)
  then show ?case
    by (auto simp: execute.psimps Let_def split: sum.splits prod.splits option.splits if_splits)
next
  case (3 env b inner strat d w)
  show ?case
    using 3(2) init_sub_trading_depth[of env _ inner strat d w]
    by (simp add: execute.psimps(3)[OF 3(1)])
       (auto simp: Let_def split: sum.splits prod.splits option.splits)
next
  case (4 env inner strat prev acc w)
  show ?case
    using 4(2,3)
    by (simp add: inner_loop.psimps[OF 4(1)])
       (auto split: if_splits sum.splits prod.splits)
qed

termination execute
proof (relation "inv_image (less_than <*lex*> less_than)
    (\<lambda>x. case x of
        Inl (env, ex, d, w) \<Rightarrow> (2 * depth ex, 0)
      | Inr (env, inner, strat, prev, acc, w) \<Rightarrow> (2 * depth inner + 1, remaining inner))",
    goal_cases)
  case 1
  show ?case by (intro wf_inv_image wf_lex_prod wf_less_than)
next
  case 2
  then show ?case by (auto dest: init_sub_trading_depth[OF sym])
next
  case 3
  then show ?case by simp
next
  case (4 env inner strat prev acc w dec y strat1 w1 r y2 res inner1 w2)
  from 4 have ex: "execute env inner dec w1 = (Inr res, inner1, w2)" by simp
  from 4 have dom: "execute_inner_loop_dom (Inl (env, inner, dec, w1))" by simp
  from execute_inner_loop_partial(1)[OF dom] ex
  have d: "depth inner1 = depth inner"
    and s: "step (calendar (attrs inner)) = Inr (calendar (attrs inner1))" by auto
  from step_Inr[OF s] have "remaining inner1 < remaining inner"
    unfolding remaining_def
    by (cases "calendar (attrs inner)"; cases "calendar (attrs inner1)") auto
  with d show ?case by simp
qed

declare inner_loop.simps [simp del]

lemma execute_inner_loop_progress:
  "\<forall>r ex' w'. execute env ex d w = (r, ex', w') \<longrightarrow>
        depth ex' = depth ex \<and>
        (\<forall>res. r = Inr res \<longrightarrow> step (calendar (attrs ex)) = Inr (calendar (attrs ex')))"
  "\<forall>r inner' strat' w'. inner_loop env inner strat prev acc w = (r, inner', strat', w') \<longrightarrow>
        depth inner' = depth inner"
proof (induct env ex d w and env inner strat prev acc w rule: execute_inner_loop.induct)
  case (1 env b d w)
  then show ?case by simp
next
  case (2 env b d w)
  then show ?case
    by (auto simp: Let_def split: sum.splits prod.splits option.splits if_splits)
next
  case (3 env b inner strat d w)
  show ?case
    using 3 init_sub_trading_depth[of env _ inner strat d w]
    by simp (auto simp: Let_def split: sum.splits prod.splits option.splits)
next
  case (4 env inner strat prev acc w)
  show ?case
    using 4
    by (subst inner_loop.simps) (auto split: if_splits sum.splits prod.splits)
qed

subsection \<open>\<^verbatim>\<open>collect_data\<close>\<close>

text \<open>
  \<^verbatim>\<open>collect_data\<close> is a generator. Its model is the sequence of everything it yields, each
  item with the executor and the world as they are while the generator is suspended at that
  \<^verbatim>\<open>yield\<close>, followed by what the generator returns and leaves when it is run to its end.
  A consumer that stops after \<open>k\<close> items leaves the generator suspended at the \<open>k\<close>-th
  \<^verbatim>\<open>yield\<close>: nothing of the body behind it has run. \<^verbatim>\<open>BaseExecutor.collect_data\<close> is
  inherited by \<^verbatim>\<open>SimulatorExecutor\<close>, \<^verbatim>\<open>SplitExecutor\<close> overrides it; an item that
  the inner generator yields (\<^verbatim>\<open>yield from\<close>) is seen with the outer executor around the
  suspended inner one.
\<close>

type_synonym ('s, 'w) yielded = "decision \<times> 's executor \<times> 'w"

definition suspended_in ::
  "base \<Rightarrow> 's \<Rightarrow> ('s, 'w) yielded \<Rightarrow> ('s, 'w) yielded" where
  "suspended_in b strat y = (case y of (d, inner, w) \<Rightarrow> (d, SplitExecutor b inner strat, w))"

function collect_data ::
    "('s, 'w, 'v) env \<Rightarrow> 's executor \<Rightarrow> decision \<Rightarrow> 'w
       \<Rightarrow> ('s, 'w) yielded list \<times> (error + execute_result) \<times> 's executor \<times> 'w"
  and collect_loop ::
    "('s, 'w, 'v) env \<Rightarrow> base \<Rightarrow> 's executor \<Rightarrow> 's \<Rightarrow> execute_result option
       \<Rightarrow> execute_result \<Rightarrow> 'w
       \<Rightarrow> ('s, 'w) yielded list \<times> (error + execute_result) \<times> 's executor \<times> 's \<times> 'w"
where
  "collect_data env (BaseExecutor b) trade_decision w =
     ((if track_data b then [(trade_decision, BaseExecutor b, w)] else []),
      execute env (BaseExecutor b) trade_decision w)"
| "collect_data env (SimulatorExecutor b) trade_decision w =
     ((if track_data b then [(trade_decision, SimulatorExecutor b, w)] else []),
      execute env (SimulatorExecutor b) trade_decision w)"
| "collect_data env (SplitExecutor b inner_executor inner_strategy) trade_decision w =
     (let ys0 = (if track_data b
                 then [(trade_decision, SplitExecutor b inner_executor inner_strategy, w)]
                 else [])
      in case step (calendar b) of
           Inl e \<Rightarrow> (ys0, Inl e, SplitExecutor b inner_executor inner_strategy, w)
         | Inr c \<Rightarrow>
             (let b1 = b\<lparr>calendar := c\<rparr> in
              case init_sub_trading env b1 inner_executor inner_strategy trade_decision w of
                (Some e, inner0, strat0, w0) \<Rightarrow> (ys0, Inl e, SplitExecutor b1 inner0 strat0, w0)
              | (None, inner0, strat0, w0) \<Rightarrow>
                  (case collect_loop env b1 inner0 strat0 None [] w0 of
                     (ys, Inl e, inner1, strat1, w1) \<Rightarrow>
                       (ys0 @ ys, Inl e, SplitExecutor b1 inner1 strat1, w1)
                   | (ys, Inr execute_result, inner1, strat1, w1) \<Rightarrow>
                       (case trade_account b1 of
                          None \<Rightarrow> (ys0 @ ys, Inr execute_result, SplitExecutor b1 inner1 strat1, w1)
                        | Some a \<Rightarrow>
                            (case update_trade_account env b1 w1 of
                               (Some e, w2) \<Rightarrow>
                                 (ys0 @ ys, Inl e, SplitExecutor b1 inner1 strat1, w2)
                             | (None, w2) \<Rightarrow>
                                 (ys0 @ ys, Inr execute_result,
                                  SplitExecutor b1 inner1 strat1, w2))))))"
| "collect_loop env b1 inner_executor inner_strategy inner_execute_result execute_result w =
     (if finished inner_executor then ([], Inr execute_result, inner_executor, inner_strategy, w)
      else
        (case generate_trade_decision env inner_strategy inner_execute_result
                (get_level_infra inner_executor) w of
           (inner_trade_decision, strat1, w1) \<Rightarrow>
             (case collect_data env inner_executor inner_trade_decision w1 of
                (ys, Inl e, inner1, w2) \<Rightarrow>
                  (map (suspended_in b1 strat1) ys, Inl e, inner1, strat1, w2)
              | (ys, Inr r, inner1, w2) \<Rightarrow>
                  (case collect_loop env b1 inner1 strat1 (Some r) (execute_result @ r) w2 of
                     (ys', rest) \<Rightarrow> (map (suspended_in b1 strat1) ys @ ys', rest)))))"
  by pat_completeness auto

text \<open>
  Termination, as for \<open>execute\<close>: on its domain the generator, run to its end, returns and
  leaves what \<open>execute\<close> does, so the inner calendar advances in every iteration.
\<close>

lemma collect_partial:
  "collect_data_collect_loop_dom (Inl (env, ex, d, w)) \<Longrightarrow>
     snd (collect_data env ex d w) = execute env ex d w"
  "collect_data_collect_loop_dom (Inr (env, b1, inner, strat, prev, acc, w)) \<Longrightarrow>
     snd (collect_loop env b1 inner strat prev acc w) = inner_loop env inner strat prev acc w"
proof (induct rule: collect_data_collect_loop.pinduct)
  case (1 env b d w)
  then show ?case by (simp add: collect_data.psimps)
next
  case (2 env b d w)
  then show ?case by (simp add: collect_data.psimps)
next
  case (3 env b inner strat d w)
  have IH: "inner_loop env inner0 strat0 None [] w0 =
              snd (collect_loop env (b\<lparr>calendar := c\<rparr>) inner0 strat0 None [] w0)"
    if "step (calendar b) = Inr c"
      and "init_sub_trading env (b\<lparr>calendar := c\<rparr>) inner strat d w = (None, inner0, strat0, w0)"
    for c inner0 strat0 w0
    using 3(2)[OF refl that(1) refl that(2)[symmetric] refl refl refl] by simp
  show ?case
  proof (cases "step (calendar b)")
    case (Inl e)
    then show ?thesis by (simp add: collect_data.psimps(3)[OF 3(1)])
  next
    case (Inr c)
    obtain r inner0 strat0 w0 where
      i: "init_sub_trading env (b\<lparr>calendar := c\<rparr>) inner strat d w = (r, inner0, strat0, w0)"
      by (cases "init_sub_trading env (b\<lparr>calendar := c\<rparr>) inner strat d w") auto
    show ?thesis
    proof (cases r)
      case (Some e)
      with Inr i show ?thesis by (simp add: collect_data.psimps(3)[OF 3(1)])
    next
      case None
      obtain ys r1 inner1 strat1 w1 where
        l: "collect_loop env (b\<lparr>calendar := c\<rparr>) inner0 strat0 None [] w0 =
              (ys, r1, inner1, strat1, w1)"
        by (cases "collect_loop env (b\<lparr>calendar := c\<rparr>) inner0 strat0 None [] w0") auto
      from IH[OF Inr i[unfolded None]] l
      have "inner_loop env inner0 strat0 None [] w0 = (r1, inner1, strat1, w1)" by simp
      with Inr i None l show ?thesis
        by (simp add: collect_data.psimps(3)[OF 3(1)] Let_def
                 split: sum.splits option.splits prod.splits)
    qed
  qed
next
  case (4 env b1 inner strat prev acc w)
  show ?case
  proof (cases "finished inner")
    case True
    then show ?thesis by (simp add: collect_loop.psimps[OF 4(1)] inner_loop.simps)
  next
    case False
    obtain dec strat1 w1 where
      g: "generate_trade_decision env strat prev (get_level_infra inner) w = (dec, strat1, w1)"
      by (cases "generate_trade_decision env strat prev (get_level_infra inner) w") auto
    obtain ys r inner1 w2 where c: "collect_data env inner dec w1 = (ys, r, inner1, w2)"
      by (cases "collect_data env inner dec w1") auto
    from 4(2)[OF False g[symmetric] refl] c
    have e: "execute env inner dec w1 = (r, inner1, w2)" by simp
    show ?thesis
    proof (cases r)
      case (Inl err)
      with False g c e show ?thesis
        by (subst inner_loop.simps) (simp add: collect_loop.psimps[OF 4(1)])
    next
      case (Inr res)
      from 4(3)[OF False g[symmetric] refl c[symmetric] refl Inr refl]
      have "inner_loop env inner1 strat1 (Some res) (acc @ res) w2 =
              snd (collect_loop env b1 inner1 strat1 (Some res) (acc @ res) w2)" by simp
      with False g c e Inr show ?thesis
        by (subst inner_loop.simps)
           (simp add: collect_loop.psimps[OF 4(1)] split: prod.splits)
    qed
  qed
qed

termination collect_data
proof (relation "inv_image (less_than <*lex*> less_than)
    (\<lambda>x. case x of
        Inl (env, ex, d, w) \<Rightarrow> (2 * depth ex, 0)
      | Inr (env, b1, inner, strat, prev, acc, w) \<Rightarrow> (2 * depth inner + 1, remaining inner))",
    goal_cases)
  case 1
  show ?case by (intro wf_inv_image wf_lex_prod wf_less_than)
next
  case 2
  then show ?case by (auto dest: init_sub_trading_depth[OF sym])
next
  case 3
  then show ?case by simp
next
  case (4 env b1 inner strat prev acc w dec y strat1 w1 ys y2 r y3 res inner1 w2)
  from 4 have c: "collect_data env inner dec w1 = (ys, Inr res, inner1, w2)" by simp
  from 4 have dom: "collect_data_collect_loop_dom (Inl (env, inner, dec, w1))" by simp
  from collect_partial(1)[OF dom] c
  have ex: "execute env inner dec w1 = (Inr res, inner1, w2)" by simp
  from execute_inner_loop_progress(1)[of env inner dec w1] ex
  have d: "depth inner1 = depth inner"
    and s: "step (calendar (attrs inner)) = Inr (calendar (attrs inner1))" by auto
  from step_Inr[OF s] have "remaining inner1 < remaining inner"
    unfolding remaining_def
    by (cases "calendar (attrs inner)"; cases "calendar (attrs inner1)") auto
  with d show ?case by simp
qed

declare collect_loop.simps [simp del]

subsection \<open>\<^verbatim>\<open>get_trade_account\<close> and \<^verbatim>\<open>get_report\<close>\<close>

text \<open>
  \<^verbatim>\<open>BaseExecutor.get_trade_account\<close> raises; neither subclass overrides it, so the method
  of the base class is what every executor has.
\<close>

definition get_trade_account :: "'s executor \<Rightarrow> error + ref" where
  "get_trade_account ex = Inl (NotImplementedError ''get_trade_account is not implemented!'')"

text \<open>Python's \<^verbatim>\<open>str\<close> on a natural number, for the label \<^verbatim>\<open>f"{_count}{_freq}"\<close>.\<close>

fun str :: "nat \<Rightarrow> string" where
  "str n = (if n < 10 then [''0123456789'' ! n]
            else str (n div 10) @ [''0123456789'' ! (n mod 10)])"

declare str.simps [simp del]

text \<open>
  The entry that an executor contributes to the report: the report frame and the positions of
  its account under the label made of the two parts that \<^verbatim>\<open>parse_freq\<close> returns for its
  \<^verbatim>\<open>time_per_step\<close>. A frequency string that \<^verbatim>\<open>parse_freq\<close> does not accept is an
  error.
\<close>

definition report_entry ::
  "('s, 'w, 'v) env \<Rightarrow> base \<Rightarrow> 'w \<Rightarrow> error + string \<times> 'v \<times> 'v" where
  "report_entry env b w =
     (case trade_account b of
        None \<Rightarrow> Inl (AttributeError ''trade_account'')
      | Some a \<Rightarrow>
          (let report = generate_report_dataframe env a w;
               positions = get_positions env a w
           in case parse_freq env (time_per_step b) of
                None \<Rightarrow> Inl InvalidConfig
              | Some (count, freq) \<Rightarrow> Inr (str count @ freq, (report, positions))))"

fun get_report ::
  "('s, 'w, 'v) env \<Rightarrow> 's executor \<Rightarrow> 'w \<Rightarrow> error + (string \<rightharpoonup> 'v \<times> 'v)" where
  "get_report env (BaseExecutor b) w =
     Inl (NotImplementedError ''get_report is not implemented!'')"
| "get_report env (SimulatorExecutor b) w =
     (if generate_report b then
        (case report_entry env b w of
           Inl e \<Rightarrow> Inl e
         | Inr (label, entry) \<Rightarrow> Inr [label \<mapsto> entry])
      else Inr Map.empty)"
| "get_report env (SplitExecutor b inner_executor inner_strategy) w =
     (case get_report env inner_executor w of
        Inl e \<Rightarrow> Inl e
      | Inr sub_env_report_dict \<Rightarrow>
          if generate_report b then
            (case report_entry env b w of
               Inl e \<Rightarrow> Inl e
             | Inr (label, entry) \<Rightarrow> Inr (sub_env_report_dict(label \<mapsto> entry)))
          else Inr sub_env_report_dict)"

subsection \<open>The levels of an executor\<close>

text \<open>
  The class and the attributes of every level of a nested executor, outermost first, without
  the calendars and the strategies: what \<^verbatim>\<open>execute\<close> never changes.
\<close>

datatype kind = Abstract | Leaf | Composite

type_synonym settings =
  "string \<times> bool \<times> bool \<times> bool \<times> ref option \<times> ref option \<times> ref option"

definition settings :: "base \<Rightarrow> settings" where
  "settings b = (time_per_step b, generate_report b, verbose b, track_data b, common_infra b,
                 trade_account b, trade_exchange b)"

fun levels :: "'s executor \<Rightarrow> (kind \<times> settings) list" where
  "levels (BaseExecutor b) = [(Abstract, settings b)]"
| "levels (SimulatorExecutor b) = [(Leaf, settings b)]"
| "levels (SplitExecutor b inner_executor inner_strategy) =
     (Composite, settings b) # levels inner_executor"

definition concrete :: "'s executor \<Rightarrow> bool" where
  "concrete ex = (Abstract \<notin> fst ` set (levels ex))"

text \<open>What \<^verbatim>\<open>SplitExecutor.execute\<close> does with the outcome of its loop.\<close>

definition after_loop ::
  "('s, 'w, 'v) env \<Rightarrow> base \<Rightarrow> (error + execute_result) \<Rightarrow> 'w
     \<Rightarrow> (error + execute_result) \<times> 'w" where
  "after_loop env b1 r w1 =
     (case r of
        Inl e \<Rightarrow> (Inl e, w1)
      | Inr res \<Rightarrow>
          (case trade_account b1 of
             None \<Rightarrow> (Inr res, w1)
           | Some a \<Rightarrow>
               (case update_trade_account env b1 w1 of
                  (Some e, w2) \<Rightarrow> (Inl e, w2)
                | (None, w2) \<Rightarrow> (Inr res, w2))))"

subsection \<open>Dealing a list of orders\<close>

text \<open>
  A second description of what the leaf executor does with the orders that pass the check,
  following the words of the specification (4.5): every order is dealt on the exchange \<open>x\<close> for
  the account \<open>a\<close>, one after the other in the order of the list, each deal in the world that
  the deal before has left; the entry of an order is the order with the value, the cost and the
  price that the deal returned.
\<close>

fun deal_in_order ::
  "('s, 'w, 'v) env \<Rightarrow> ref \<Rightarrow> ref \<Rightarrow> order list \<Rightarrow> 'w \<Rightarrow> execute_result \<times> 'w" where
  "deal_in_order env x a [] w = ([], w)"
| "deal_in_order env x a (ord # rest) w =
     (case deal_order env x ord a w of
        ((trade_val, trade_cost, trade_price), w1) \<Rightarrow>
          (case deal_in_order env x a rest w1 of
             (entries, w2) \<Rightarrow> ((ord, trade_val, trade_cost, trade_price) # entries, w2)))"

subsection \<open>\<^verbatim>\<open>get_exchange\<close>\<close>

text \<open>
  \<^verbatim>\<open>get_exchange\<close> of \<^verbatim>\<open>backtest/__init__.py\<close>. The configuration \<^verbatim>\<open>C\<close>, the class
  \<^verbatim>\<open>Exchange\<close> and \<^verbatim>\<open>init_instance_by_config\<close> are not among the sources: the
  configuration is a record of the three values that are read from it, an exchange that
  \<^verbatim>\<open>get_exchange\<close> constructs is the record of the keyword arguments it is constructed with,
  and \<^verbatim>\<open>init_instance_by_config\<close> is a parameter. An argument whose value may be
  \<^verbatim>\<open>None\<close> is an option. \<^verbatim>\<open>deal_price[0]\<close> raises \<^verbatim>\<open>IndexError\<close> on the empty string.
\<close>

record qlib_config =
  C_trade_unit :: "nat option"
  C_limit_threshold :: "real option"
  C_deal_price :: string

record 'c exchange_args =
  arg_exchange :: "'c option"
  arg_freq :: string
  arg_start_time :: "timestamp option"
  arg_end_time :: "timestamp option"
  arg_codes :: string
  arg_subscribe_fields :: "string list"
  arg_open_cost :: real
  arg_close_cost :: real
  arg_min_cost :: real
  arg_trade_unit :: "nat option"
  arg_limit_threshold :: "real option"
  arg_deal_price :: "string option"

record exchange_kwargs =
  kw_freq :: string
  kw_start_time :: "timestamp option"
  kw_end_time :: "timestamp option"
  kw_codes :: string
  kw_deal_price :: string
  kw_subscribe_fields :: "string list"
  kw_limit_threshold :: "real option"
  kw_open_cost :: real
  kw_close_cost :: real
  kw_trade_unit :: "nat option"
  kw_min_cost :: real

datatype 'e exchange_object = Exchange exchange_kwargs | Instance 'e

definition get_exchange ::
  "qlib_config \<Rightarrow> ('c \<Rightarrow> 'e) \<Rightarrow> 'c exchange_args \<Rightarrow> error + 'e exchange_object" where
  "get_exchange C init_instance_by_config args =
     (let trade_unit = (case arg_trade_unit args of None \<Rightarrow> C_trade_unit C | Some u \<Rightarrow> Some u);
          limit_threshold =
            (case arg_limit_threshold args of None \<Rightarrow> C_limit_threshold C | Some l \<Rightarrow> Some l);
          deal_price = (case arg_deal_price args of None \<Rightarrow> C_deal_price C | Some p \<Rightarrow> p)
      in case arg_exchange args of
           None \<Rightarrow>
             (case deal_price of
                [] \<Rightarrow> Inl IndexError
              | c # _ \<Rightarrow>
                  (let deal_price = (if c \<noteq> CHR ''$'' then CHR ''$'' # deal_price else deal_price)
                   in Inr (Exchange
                        \<lparr>kw_freq = arg_freq args, kw_start_time = arg_start_time args,
                         kw_end_time = arg_end_time args, kw_codes = arg_codes args,
                         kw_deal_price = deal_price,
                         kw_subscribe_fields = arg_subscribe_fields args,
                         kw_limit_threshold = limit_threshold,
                         kw_open_cost = arg_open_cost args, kw_close_cost = arg_close_cost args,
                         kw_trade_unit = trade_unit, kw_min_cost = arg_min_cost args\<rparr>)))
         | Some exchange \<Rightarrow> Inr (Instance (init_instance_by_config exchange)))"

subsection \<open>What a generator yields, and where it is left\<close>

text \<open>
  The item that \<^verbatim>\<open>collect_data\<close> yields before anything else, when \<^verbatim>\<open>track_data\<close> is
  set: the decision, seen with the executor and the world untouched.
\<close>

definition own_item :: "'s executor \<Rightarrow> decision \<Rightarrow> 'w \<Rightarrow> ('s, 'w) yielded list" where
  "own_item ex d w = (if track_data (attrs ex) then [(d, ex, w)] else [])"

text \<open>
  The executor and the world that a consumer finds when it stops after \<open>k\<close> items: for
  \<open>k = 0\<close> the generator has not been started, and Python runs nothing of a generator's
  body before the first \<^verbatim>\<open>next\<close>; otherwise the generator is suspended at its \<open>k\<close>-th
  \<^verbatim>\<open>yield\<close>. \<open>drained\<close> is what a consumer gets that runs the generator to its end.
\<close>

definition abandoned ::
  "nat \<Rightarrow> ('s, 'w, 'v) env \<Rightarrow> 's executor \<Rightarrow> decision \<Rightarrow> 'w \<Rightarrow> ('s executor \<times> 'w) option" where
  "abandoned k env ex d w =
     (if k = 0 then Some (ex, w)
      else if k \<le> length (fst (collect_data env ex d w))
      then Some (snd (fst (collect_data env ex d w) ! (k - 1)))
      else None)"

definition drained ::
  "('s, 'w, 'v) env \<Rightarrow> 's executor \<Rightarrow> decision \<Rightarrow> 'w \<Rightarrow> (error + execute_result) \<times> 's executor \<times> 'w" where
  "drained env ex d w = snd (collect_data env ex d w)"

text \<open>
  A second description of the sequence, following the words of the specification (4.4: every
  sub-decision generated along the way): the decisions that are handed to the levels of an
  executor while \<^verbatim>\<open>execute\<close> runs, in the order in which they are handed over, each with
  the \<^verbatim>\<open>track_data\<close> flag of the level that receives it. The first is the decision given
  to the executor itself; a composite executor whose calendar has stepped and whose inner
  executor and strategy have been reset then hands, in every iteration of its loop, the
  sub-decision of its strategy to its inner executor.
\<close>

function decisions ::
    "('s, 'w, 'v) env \<Rightarrow> 's executor \<Rightarrow> decision \<Rightarrow> 'w \<Rightarrow> (bool \<times> decision) list"
  and loop_decisions ::
    "('s, 'w, 'v) env \<Rightarrow> 's executor \<Rightarrow> 's \<Rightarrow> execute_result option \<Rightarrow> 'w
       \<Rightarrow> (bool \<times> decision) list"
where
  "decisions env (BaseExecutor b) trade_decision w = [(track_data b, trade_decision)]"
| "decisions env (SimulatorExecutor b) trade_decision w = [(track_data b, trade_decision)]"
| "decisions env (SplitExecutor b inner_executor inner_strategy) trade_decision w =
     (track_data b, trade_decision) #
     (case step (calendar b) of
        Inl e \<Rightarrow> []
      | Inr c \<Rightarrow>
          (case init_sub_trading env (b\<lparr>calendar := c\<rparr>) inner_executor inner_strategy
                  trade_decision w of
             (Some e, inner0, strat0, w0) \<Rightarrow> []
           | (None, inner0, strat0, w0) \<Rightarrow> loop_decisions env inner0 strat0 None w0))"
| "loop_decisions env inner_executor inner_strategy inner_execute_result w =
     (if finished inner_executor then []
      else
        (case generate_trade_decision env inner_strategy inner_execute_result
                (get_level_infra inner_executor) w of
           (inner_trade_decision, strat1, w1) \<Rightarrow>
             decisions env inner_executor inner_trade_decision w1 @
             (case execute env inner_executor inner_trade_decision w1 of
                (Inl e, inner1, w2) \<Rightarrow> []
              | (Inr r, inner1, w2) \<Rightarrow> loop_decisions env inner1 strat1 (Some r) w2)))"
  by pat_completeness auto
termination
proof (relation "inv_image (less_than <*lex*> less_than)
    (\<lambda>x. case x of
        Inl (env, ex, d, w) \<Rightarrow> (2 * depth ex, 0)
      | Inr (env, inner, strat, prev, w) \<Rightarrow> (2 * depth inner + 1, remaining inner))",
    goal_cases)
  case 1
  show ?case by (intro wf_inv_image wf_lex_prod wf_less_than)
next
  case 2
  then show ?case by (auto dest: init_sub_trading_depth[OF sym])
next
  case 3
  then show ?case by simp
next
  case (4 env inner strat prev w dec y strat1 w1 r y2 res inner1 w2)
  from 4 have ex: "execute env inner dec w1 = (Inr res, inner1, w2)" by simp
  from execute_inner_loop_progress(1)[of env inner dec w1] ex
  have d: "depth inner1 = depth inner"
    and s: "step (calendar (attrs inner)) = Inr (calendar (attrs inner1))" by auto
  from step_Inr[OF s] have "remaining inner1 < remaining inner"
    unfolding remaining_def
    by (cases "calendar (attrs inner)"; cases "calendar (attrs inner1)") auto
  with d show ?case by simp
qed

declare loop_decisions.simps [simp del]

subsection \<open>The inner loop as a sequence of iterations\<close>

text \<open>
  A second description of the loop of \<^verbatim>\<open>SplitExecutor.execute\<close>, following the words of
  the specification (4.6): while the inner executor is not finished, the inner strategy is
  asked for a sub-decision, receiving the previous inner result, or none in the first
  iteration, and the sub-decision is executed on the inner executor. \<open>sub_trading\<close> relates
  the inner executor, the strategy, the previous result and the world at the head of the loop to
  the list of the iterations made and to what the loop leaves; a derivation is a finite run of
  the loop. An iteration records the index of the inner calendar at its start, what the
  strategy was given, what it decided and the outcome of executing that.
\<close>

datatype iteration =
  Iteration (bar: nat) (given: "execute_result option") (decided: decision)
    (outcome: "error + execute_result")

inductive sub_trading ::
  "('s, 'w, 'v) env \<Rightarrow> 's executor \<Rightarrow> 's \<Rightarrow> execute_result option \<Rightarrow> 'w
     \<Rightarrow> iteration list \<Rightarrow> 's executor \<Rightarrow> 's \<Rightarrow> 'w \<Rightarrow> bool"
  for env :: "('s, 'w, 'v) env"
where
  finished:
    "finished inner \<Longrightarrow> sub_trading env inner strat prev w [] inner strat w"
| failed:
    "\<not> finished inner \<Longrightarrow>
     generate_trade_decision env strat prev (get_level_infra inner) w = (dec, strat1, w1) \<Longrightarrow>
     execute env inner dec w1 = (Inl e, inner1, w2) \<Longrightarrow>
     sub_trading env inner strat prev w
       [Iteration (current_index (calendar (attrs inner))) prev dec (Inl e)]
       inner1 strat1 w2"
| iterated:
    "\<not> finished inner \<Longrightarrow>
     generate_trade_decision env strat prev (get_level_infra inner) w = (dec, strat1, w1) \<Longrightarrow>
     execute env inner dec w1 = (Inr r, inner1, w2) \<Longrightarrow>
     sub_trading env inner1 strat1 (Some r) w2 its inner' strat' w' \<Longrightarrow>
     sub_trading env inner strat prev w
       (Iteration (current_index (calendar (attrs inner))) prev dec (Inr r) # its)
       inner' strat' w'"

code_pred sub_trading .

text \<open>
  The result of an iteration, the results of all iterations appended, and the error that ended
  the loop, if one did.
\<close>

definition result :: "iteration \<Rightarrow> execute_result" where
  "result i = (case outcome i of Inl e \<Rightarrow> [] | Inr r \<Rightarrow> r)"

definition aggregate :: "iteration list \<Rightarrow> execute_result" where
  "aggregate its = concat (map (\<lambda>i. case outcome i of Inl e \<Rightarrow> [] | Inr r \<Rightarrow> r) its)"

definition failure :: "iteration list \<Rightarrow> error option" where
  "failure its =
     (case its of
        [] \<Rightarrow> None
      | _ \<Rightarrow> (case outcome (last its) of Inl e \<Rightarrow> Some e | Inr r \<Rightarrow> None))"

subsection \<open>Observing the calls on the account\<close>

text \<open>
  The calls on the collaborators that change the world. Nothing in the sources says what an
  account does in \<^verbatim>\<open>update_bar_count\<close> or \<^verbatim>\<open>update_bar_report\<close>; to count these calls,
  an observation \<open>obs\<close> of the world is assumed that records every deal and every one of the
  two updates in the order in which they happen, and that the strategy leaves alone.
  \<open>closes a e\<close>: the call \<open>e\<close> is one of the two updates on the account \<open>a\<close>.
  \<open>bar_close b a\<close> is what the executor with the attributes \<open>b\<close> and the account \<open>a\<close> does
  to close its current bar: the bar-count update and, if it generates a report, the bar-report
  update with the bounds of the bar. \<open>accounts\<close> lists the accounts of levels.
\<close>

datatype event =
    Dealt ref order ref
  | BarCount ref
  | BarReport ref timestamp timestamp ref
  | AccountReset ref string bool

definition records_calls :: "('s, 'w, 'v) env \<Rightarrow> ('w \<Rightarrow> event list) \<Rightarrow> bool" where
  "records_calls env obs \<longleftrightarrow>
     (\<forall>a w. obs (update_bar_count env a w) = obs w @ [BarCount a]) \<and>
     (\<forall>a t0 t1 x w. obs (update_bar_report env a t0 t1 x w) = obs w @ [BarReport a t0 t1 x]) \<and>
     (\<forall>x ord a w. obs (snd (deal_order env x ord a w)) = obs w @ [Dealt x ord a]) \<and>
     (\<forall>s prev cal w. obs (snd (snd (generate_trade_decision env s prev cal w))) = obs w)"

fun closes :: "ref \<Rightarrow> event \<Rightarrow> bool" where
  "closes a (BarCount a') = (a' = a)"
| "closes a (BarReport a' t0 t1 x) = (a' = a)"
| "closes a (Dealt x ord a') = False"
| "closes a (AccountReset a' f r) = False"

definition bar_close :: "base \<Rightarrow> ref \<Rightarrow> event list" where
  "bar_close b a =
     BarCount a #
     (if generate_report b then
        (case trade_exchange b of
           None \<Rightarrow> []
         | Some x \<Rightarrow>
             [BarReport a (fst (get_calendar_time (calendar b) (get_trade_index (calendar b))))
                (snd (get_calendar_time (calendar b) (get_trade_index (calendar b)))) x])
      else [])"

definition accounts :: "(kind \<times> settings) list \<Rightarrow> ref list" where
  "accounts ls = List.map_filter (\<lambda>(k, f, g, v, t, ci, a, x). a) ls"

subsection \<open>The dicts of \<^verbatim>\<open>common_infra\<close> as objects\<close>

text \<open>
  A world that holds dicts only, to evaluate \<^verbatim>\<open>reset_common_infra\<close>: a reference is an
  index into the store and a dict is the list of its items. \<open>setitem k v d\<close> is
  \<^verbatim>\<open>d[k] = v\<close>; \<open>py_update d other\<close> is \<^verbatim>\<open>d.update(other)\<close>, which stores every
  item of \<open>other\<close> in \<open>d\<close>.
\<close>

type_synonym pydict = "(string \<times> ref) list"

fun setitem :: "string \<Rightarrow> ref \<Rightarrow> pydict \<Rightarrow> pydict" where
  "setitem k v [] = [(k, v)]"
| "setitem k v ((k', v') # kvs) =
     (if k' = k then (k, v) # kvs else (k', v') # setitem k v kvs)"

definition py_update :: "pydict \<Rightarrow> pydict \<Rightarrow> pydict" where
  "py_update d other = fold (\<lambda>(k, v). setitem k v) other d"

subsection \<open>An environment for evaluation\<close>

text \<open>
  An instance of the environment in which the world is the log of the calls that changed it;
  it holds no dict.
  The exchange accepts the orders with a positive amount; the strategy hands the first order
  of the outer decision down in every inner bar; a day has two half days.
\<close>

definition log_env :: "(decision, event list, event list) env" where
  "log_env =
     \<lparr>freq_len = (\<lambda>f. if f = ''day'' then Some 2 else if f = ''halfday'' then Some 1 else None),
      parse_freq = (\<lambda>f. if f = ''day'' then Some (1, ''day'')
                         else if f = ''halfday'' then Some (1, ''halfday'') else None),
      check_order = (\<lambda>x ord. 0 < amount ord),
      deal_order = (\<lambda>x ord a w. ((amount ord, 0, 1), w @ [Dealt x ord a])),
      update_bar_count = (\<lambda>a w. w @ [BarCount a]),
      update_bar_report = (\<lambda>a t0 t1 x w. w @ [BarReport a t0 t1 x]),
      copy_account = (\<lambda>a w. (Suc a, w)),
      dict_get = (\<lambda>d k w. None),
      dict_update = (\<lambda>d d' w. w),
      account_reset = (\<lambda>a f r w. w @ [AccountReset a f r]),
      generate_report_dataframe =
        (\<lambda>a w. filter (\<lambda>e. case e of BarReport a' _ _ _ \<Rightarrow> a' = a | _ \<Rightarrow> False) w),
      get_positions =
        (\<lambda>a w. filter (\<lambda>e. case e of Dealt _ _ a' \<Rightarrow> a' = a | _ \<Rightarrow> False) w),
      strategy_reset = (\<lambda>cal d s. take 1 d),
      strategy_reset_common_infra = (\<lambda>ci s w. (s, w)),
      generate_trade_decision = (\<lambda>s prev cal w. (s, s, w))\<rparr>"

definition day_calendar :: calendar where
  "day_calendar =
     \<lparr>frequency = ''day'', range_start = 0, bar_length = 2, bar_count = 2, current_index = 0\<rparr>"

definition leaf_fields :: base where
  "leaf_fields =
     \<lparr>time_per_step = ''day'', generate_report = True, verbose = False, track_data = True,
      calendar = day_calendar, common_infra = None, trade_account = Some 1,
      trade_exchange = Some 0\<rparr>"

definition buy_order :: order where
  "buy_order = \<lparr>stock_id = ''X'', direction = BUY, amount = 100, factor = 1\<rparr>"

definition void_order :: order where
  "void_order = \<lparr>stock_id = ''Y'', direction = SELL, amount = 0, factor = 1\<rparr>"

definition split_fields :: base where
  "split_fields =
     \<lparr>time_per_step = ''day'', generate_report = True, verbose = False, track_data = True,
      calendar = day_calendar, common_infra = None, trade_account = Some 2,
      trade_exchange = Some 0\<rparr>"

definition halfday_fields :: base where
  "halfday_fields =
     \<lparr>time_per_step = ''halfday'', generate_report = True, verbose = False, track_data = False,
      calendar = day_calendar, common_infra = None, trade_account = Some 1,
      trade_exchange = Some 0\<rparr>"

definition nested_executor :: "decision executor" where
  "nested_executor = SplitExecutor split_fields (SimulatorExecutor halfday_fields) []"

definition default_config :: qlib_config where
  "default_config = \<lparr>C_trade_unit = Some 100, C_limit_threshold = Some (1 / 10), C_deal_price = ''close''\<rparr>"

definition default_args :: "nat exchange_args" where
  "default_args =
     \<lparr>arg_exchange = None, arg_freq = ''day'', arg_start_time = None, arg_end_time = None,
      arg_codes = ''all'', arg_subscribe_fields = [], arg_open_cost = 15 / 10000,
      arg_close_cost = 25 / 10000, arg_min_cost = 5, arg_trade_unit = None,
      arg_limit_threshold = None, arg_deal_price = None\<rparr>"

definition halfday_calendar :: calendar where
  "halfday_calendar =
     \<lparr>frequency = ''halfday'', range_start = 0, bar_length = 1, bar_count = 2, current_index = 0\<rparr>"

definition started_inner :: "decision executor" where
  "started_inner = SimulatorExecutor (halfday_fields\<lparr>calendar := halfday_calendar\<rparr>)"

definition finished_inner :: "decision executor" where
  "finished_inner =
     SimulatorExecutor (halfday_fields\<lparr>calendar := halfday_calendar\<lparr>current_index := 2\<rparr>\<rparr>)"

definition tracked_executor :: "decision executor" where
  "tracked_executor =
     SplitExecutor split_fields (SimulatorExecutor (halfday_fields\<lparr>track_data := True\<rparr>)) []"

definition untracked_executor :: "decision executor" where
  "untracked_executor =
     SplitExecutor (split_fields\<lparr>track_data := False\<rparr>) (SimulatorExecutor halfday_fields) []"

text \<open>
  An environment over the store of dicts, in which accounts and exchanges have no state, and
  the store of a caller that holds two dicts.
\<close>

definition dict_env :: "(decision, pydict list, unit) env" where
  "dict_env =
     \<lparr>freq_len = (\<lambda>f. if f = ''day'' then Some 2 else if f = ''halfday'' then Some 1 else None),
      parse_freq = (\<lambda>f. if f = ''day'' then Some (1, ''day'')
                         else if f = ''halfday'' then Some (1, ''halfday'') else None),
      check_order = (\<lambda>x ord. 0 < amount ord),
      deal_order = (\<lambda>x ord a w. ((amount ord, 0, 1), w)),
      update_bar_count = (\<lambda>a w. w),
      update_bar_report = (\<lambda>a t0 t1 x w. w),
      copy_account = (\<lambda>a w. (Suc a, w)),
      dict_get = (\<lambda>d k w. if d < length w then map_of (w ! d) k else None),
      dict_update = (\<lambda>d d' w. if d < length w \<and> d' < length w
                                then w[d := py_update (w ! d) (w ! d')] else w),
      account_reset = (\<lambda>a f r w. w),
      generate_report_dataframe = (\<lambda>a w. ()),
      get_positions = (\<lambda>a w. ()),
      strategy_reset = (\<lambda>cal d s. take 1 d),
      strategy_reset_common_infra = (\<lambda>ci s w. (s, w)),
      generate_trade_decision = (\<lambda>s prev cal w. (s, s, w))\<rparr>"

definition caller_dicts :: "pydict list" where
  "caller_dicts = [[(''trade_exchange'', 7)], [(''trade_exchange'', 8)]]"

section \<open>Properties\<close>

lemma cal_finished_iff:
  "current_index c \<le> bar_count c \<Longrightarrow> cal_finished c \<longleftrightarrow> current_index c = bar_count c"
  by (auto simp: cal_finished_def)

subsection \<open>Induction and case analysis for \<^verbatim>\<open>execute\<close>\<close>

lemma levels_with_attrs [simp]:
  "levels (with_attrs ex b) = (fst (hd (levels ex)), settings b) # tl (levels ex)"
  by (cases ex) auto

lemma levels_ne [simp]: "levels ex \<noteq> []"
  by (cases ex) auto

lemma hd_levels: "snd (hd (levels ex)) = settings (attrs ex)"
  by (cases ex) auto

lemma reset_window:
  "reset env None None (Some tw) ex w = (r, ex', w') \<Longrightarrow>
     levels ex' = levels ex \<and> w' = w \<and>
     (case r of
        None \<Rightarrow> TradeCalendarManager (freq_len env) (time_per_step (attrs ex)) (fst tw) (snd tw)
                  = Inr (calendar (attrs ex'))
      | Some e \<Rightarrow> TradeCalendarManager (freq_len env) (time_per_step (attrs ex)) (fst tw) (snd tw)
                  = Inl e \<and> ex' = ex)"
  by (cases ex; cases tw) (auto simp: reset_def settings_def split: sum.splits)

lemma TradeCalendarManager_error:
  "TradeCalendarManager flen f t0 t1 = Inl e \<Longrightarrow> e = InvalidConfig \<or> e = MisalignedRange"
  by (auto simp: TradeCalendarManager_def split: option.splits if_splits)

lemma init_sub_trading_levels:
  "init_sub_trading env b inner strat d w = (r, inner0, strat0, w0) \<Longrightarrow>
     levels inner0 = levels inner \<and> w0 = w \<and>
     (\<forall>e. r = Some e \<longrightarrow> e = InvalidConfig \<or> e = MisalignedRange)"
  by (auto simp: init_sub_trading_def Let_def split: prod.splits option.splits
           dest!: reset_window TradeCalendarManager_error)

lemma update_trade_account_error:
  "update_trade_account env b w = (Some e, w') \<Longrightarrow> \<exists>m. e = AttributeError m"
  by (auto simp: update_trade_account_def Let_def split: prod.splits option.splits if_splits)

lemma step_error: "step c = Inl e \<Longrightarrow> e = CalendarExhausted"
  by (auto simp: step_def split: if_splits)

lemma deal_orders_error:
  "deal_orders env b d acc w = (Inl e, w') \<Longrightarrow> \<exists>m. e = AttributeError m"
  by (induction d arbitrary: acc w) (auto split: option.splits if_splits prod.splits)

lemma execute_induct [case_names Base Simulator Split Loop]:
  assumes "\<And>env b d w. P env (BaseExecutor b) d w"
    and "\<And>env b d w. P env (SimulatorExecutor b) d w"
    and "\<And>env b inner strat d w.
           (\<And>c inner0 strat0 w0.
               step (calendar b) = Inr c \<Longrightarrow>
               init_sub_trading env (b\<lparr>calendar := c\<rparr>) inner strat d w = (None, inner0, strat0, w0)
               \<Longrightarrow> Q env inner0 strat0 None [] w0)
           \<Longrightarrow> P env (SplitExecutor b inner strat) d w"
    and "\<And>env inner strat prev acc w.
           (\<And>dec strat1 w1.
               \<not> finished inner \<Longrightarrow>
               generate_trade_decision env strat prev (get_level_infra inner) w = (dec, strat1, w1)
               \<Longrightarrow> P env inner dec w1)
           \<Longrightarrow> (\<And>dec strat1 w1 r inner1 w2.
               \<not> finished inner \<Longrightarrow>
               generate_trade_decision env strat prev (get_level_infra inner) w = (dec, strat1, w1)
               \<Longrightarrow> execute env inner dec w1 = (Inr r, inner1, w2)
               \<Longrightarrow> Q env inner1 strat1 (Some r) (acc @ r) w2)
           \<Longrightarrow> Q env inner strat prev acc w"
  shows "P env ex d w" and "Q env inner strat prev acc w"
proof (induct env ex d w and env inner strat prev acc w rule: execute_inner_loop.induct)
  case (1 env b d w)
  show ?case by (rule assms(1))
next
  case (2 env b d w)
  show ?case by (rule assms(2))
next
  case (3 env b inner strat d w)
  show ?case
  proof (rule assms(3))
    fix c inner0 strat0 w0
    assume "step (calendar b) = Inr c"
      and "init_sub_trading env (b\<lparr>calendar := c\<rparr>) inner strat d w = (None, inner0, strat0, w0)"
    then show "Q env inner0 strat0 None [] w0"
      using 3[OF _ refl sym refl refl refl] by blast
  qed
next
  case (4 env inner strat prev acc w)
  show ?case
  proof (rule assms(4))
    fix dec strat1 w1
    assume "\<not> finished inner"
      and "generate_trade_decision env strat prev (get_level_infra inner) w = (dec, strat1, w1)"
    then show "P env inner dec w1"
      using 4(1)[OF _ sym refl] by blast
  next
    fix dec strat1 w1 r inner1 w2
    assume "\<not> finished inner"
      and "generate_trade_decision env strat prev (get_level_infra inner) w = (dec, strat1, w1)"
      and "execute env inner dec w1 = (Inr r, inner1, w2)"
    then show "Q env inner1 strat1 (Some r) (acc @ r) w2"
      using 4(2)[OF _ sym refl sym refl refl] by blast
  qed
qed

lemma execute_SplitE [consumes 1, case_names exhausted no_sub sub]:
  assumes "execute env (SplitExecutor b inner strat) d w = (r, ex', w')"
  obtains e where "step (calendar b) = Inl e" "r = Inl e"
      "ex' = SplitExecutor b inner strat" "w' = w"
  | c e inner0 strat0 w0 where "step (calendar b) = Inr c"
      "init_sub_trading env (b\<lparr>calendar := c\<rparr>) inner strat d w = (Some e, inner0, strat0, w0)"
      "r = Inl e" "ex' = SplitExecutor (b\<lparr>calendar := c\<rparr>) inner0 strat0" "w' = w0"
  | c inner0 strat0 w0 r1 inner1 strat1 w1 where "step (calendar b) = Inr c"
      "init_sub_trading env (b\<lparr>calendar := c\<rparr>) inner strat d w = (None, inner0, strat0, w0)"
      "inner_loop env inner0 strat0 None [] w0 = (r1, inner1, strat1, w1)"
      "ex' = SplitExecutor (b\<lparr>calendar := c\<rparr>) inner1 strat1"
      "(r, w') = after_loop env (b\<lparr>calendar := c\<rparr>) r1 w1"
proof (cases "step (calendar b)")
  case (Inl e)
  with assms that(1) show ?thesis by simp
next
  case (Inr c)
  obtain r0 inner0 strat0 w0 where
    i: "init_sub_trading env (b\<lparr>calendar := c\<rparr>) inner strat d w = (r0, inner0, strat0, w0)"
    by (cases "init_sub_trading env (b\<lparr>calendar := c\<rparr>) inner strat d w") auto
  show ?thesis
  proof (cases r0)
    case (Some e)
    with assms Inr i that(2) show ?thesis by simp
  next
    case None
    obtain r1 inner1 strat1 w1 where
      l: "inner_loop env inner0 strat0 None [] w0 = (r1, inner1, strat1, w1)"
      by (cases "inner_loop env inner0 strat0 None [] w0") auto
    from assms Inr i None l
    have "ex' = SplitExecutor (b\<lparr>calendar := c\<rparr>) inner1 strat1"
      and "(r, w') = after_loop env (b\<lparr>calendar := c\<rparr>) r1 w1"
      by (auto simp: after_loop_def Let_def split: sum.splits option.splits prod.splits)
    with that(3)[OF Inr i[unfolded None] l] show ?thesis by simp
  qed
qed

lemma inner_loopE [consumes 1, case_names finished failed iterated]:
  assumes "inner_loop env inner strat prev acc w = (r, inner', strat', w')"
  obtains "finished inner" "r = Inr acc" "inner' = inner" "strat' = strat" "w' = w"
  | dec strat1 w1 e inner1 w2 where "\<not> finished inner"
      "generate_trade_decision env strat prev (get_level_infra inner) w = (dec, strat1, w1)"
      "execute env inner dec w1 = (Inl e, inner1, w2)"
      "r = Inl e" "inner' = inner1" "strat' = strat1" "w' = w2"
  | dec strat1 w1 res inner1 w2 where "\<not> finished inner"
      "generate_trade_decision env strat prev (get_level_infra inner) w = (dec, strat1, w1)"
      "execute env inner dec w1 = (Inr res, inner1, w2)"
      "inner_loop env inner1 strat1 (Some res) (acc @ res) w2 = (r, inner', strat', w')"
proof (cases "finished inner")
  case True
  from assms[unfolded inner_loop.simps[of env inner strat prev acc w]] True
  have "r = Inr acc" "inner' = inner" "strat' = strat" "w' = w" by simp_all
  with that(1)[OF True] show ?thesis by blast
next
  case False
  note eq = assms[unfolded inner_loop.simps[of env inner strat prev acc w]]
  obtain dec strat1 w1 where
    g: "generate_trade_decision env strat prev (get_level_infra inner) w = (dec, strat1, w1)"
    by (cases "generate_trade_decision env strat prev (get_level_infra inner) w") auto
  obtain r1 inner1 w2 where e: "execute env inner dec w1 = (r1, inner1, w2)"
    by (cases "execute env inner dec w1") auto
  show ?thesis
  proof (cases r1)
    case (Inl err)
    from eq False g e Inl have "r = Inl err" "inner' = inner1" "strat' = strat1" "w' = w2"
      by simp_all
    with that(2)[OF False g e[unfolded Inl]] show ?thesis by blast
  next
    case (Inr res)
    from eq False g e Inr
    have "inner_loop env inner1 strat1 (Some res) (acc @ res) w2 = (r, inner', strat', w')"
      by simp
    with that(3)[OF False g e[unfolded Inr]] show ?thesis by blast
  qed
qed

lemma after_loop_error:
  "(Inl e, w') = after_loop env b r w \<Longrightarrow> r = Inl e \<or> (\<exists>m. e = AttributeError m)"
  by (auto simp: after_loop_def split: sum.splits option.splits prod.splits
           dest: update_trade_account_error)

lemma execute_inner_loop_levels:
  "execute env ex d w = (r, ex', w') \<longrightarrow> levels ex' = levels ex"
  "inner_loop env inner strat prev acc w = (r1, inner', strat', w1') \<longrightarrow> levels inner' = levels inner"
proof (induct env ex d w and env inner strat prev acc w arbitrary: r ex' w' and r1 inner' strat' w1'
    rule: execute_induct)
  case (Base env b d w)
  show ?case by auto
next
  case (Simulator env b d w)
  show ?case
    by (auto simp: Let_def settings_def split: sum.splits prod.splits option.splits if_splits)
next
  case (Split env b inner strat d w)
  show ?case
  proof
    assume "execute env (SplitExecutor b inner strat) d w = (r, ex', w')"
    then show "levels ex' = levels (SplitExecutor b inner strat)"
    proof (cases rule: execute_SplitE)
      case exhausted
      then show ?thesis by simp
    next
      case (no_sub c e inner0 strat0 w0)
      with init_sub_trading_levels[OF no_sub(2)] show ?thesis by (simp add: settings_def)
    next
      case (sub c inner0 strat0 w0 r1 inner1 strat1 w1)
      from Split[OF sub(1,2)] sub(3) have "levels inner1 = levels inner0" by blast
      with init_sub_trading_levels[OF sub(2)] sub(4) show ?thesis by (simp add: settings_def)
    qed
  qed
next
  case (Loop env inner strat prev acc w)
  show ?case
  proof
    assume "inner_loop env inner strat prev acc w = (r1, inner', strat', w1')"
    then show "levels inner' = levels inner"
    proof (cases rule: inner_loopE)
      case finished
      then show ?thesis by simp
    next
      case (failed dec strat1 w1 e inner1 w2)
      with Loop(1)[OF failed(1,2)] show ?thesis by simp
    next
      case (iterated dec strat1 w1 res inner1 w2)
      from Loop(1)[OF iterated(1,2)] iterated(3) have "levels inner1 = levels inner" by blast
      with Loop(2)[OF iterated(1,2,3)] iterated(4) show ?thesis by simp
    qed
  qed
qed

lemma execute_inner_loop_implemented:
  "concrete ex \<longrightarrow> execute env ex d w = (r, ex', w') \<longrightarrow> r \<noteq> Inl (NotImplementedError m)"
  "concrete inner \<longrightarrow> inner_loop env inner strat prev acc w = (r1, inner', strat', w1')
     \<longrightarrow> r1 \<noteq> Inl (NotImplementedError m)"
proof (induct env ex d w and env inner strat prev acc w arbitrary: r ex' w' and r1 inner' strat' w1'
    rule: execute_induct)
  case (Base env b d w)
  show ?case by (simp add: concrete_def)
next
  case (Simulator env b d w)
  show ?case
    by (auto simp: Let_def split: sum.splits prod.splits option.splits if_splits
             dest!: step_error deal_orders_error)
next
  case (Split env b inner strat d w)
  show ?case
  proof (intro impI)
    assume c: "concrete (SplitExecutor b inner strat)"
    assume "execute env (SplitExecutor b inner strat) d w = (r, ex', w')"
    then show "r \<noteq> Inl (NotImplementedError m)"
    proof (cases rule: execute_SplitE)
      case (exhausted e)
      then show ?thesis by (auto dest: step_error)
    next
      case (no_sub c e inner0 strat0 w0)
      with init_sub_trading_levels[OF no_sub(2)] show ?thesis by auto
    next
      case (sub c0 inner0 strat0 w0 r1 inner1 strat1 w1)
      from c init_sub_trading_levels[OF sub(2)] have "concrete inner0"
        by (simp add: concrete_def)
      with Split[OF sub(1,2)] sub(3) have "r1 \<noteq> Inl (NotImplementedError m)" by blast
      with sub(5) show ?thesis by (auto dest: after_loop_error)
    qed
  qed
next
  case (Loop env inner strat prev acc w)
  show ?case
  proof (intro impI)
    assume c: "concrete inner"
    assume "inner_loop env inner strat prev acc w = (r1, inner', strat', w1')"
    then show "r1 \<noteq> Inl (NotImplementedError m)"
    proof (cases rule: inner_loopE)
      case finished
      then show ?thesis by simp
    next
      case (failed dec strat1 w1 e inner1 w2)
      with Loop(1)[OF failed(1,2)] c show ?thesis by blast
    next
      case (iterated dec strat1 w1 res inner1 w2)
      from execute_inner_loop_levels(1)[of env inner dec w1] iterated(3) c
      have "concrete inner1" by (simp add: concrete_def)
      with Loop(2)[OF iterated(1,2,3)] iterated(4) show ?thesis by blast
    qed
  qed
qed

lemma inner_loop_finished:
  "finished inner \<Longrightarrow> inner_loop env inner strat prev acc w = (Inr acc, inner, strat, w)"
  by (subst inner_loop.simps) simp

lemma inner_loop_step:
  assumes "\<not> finished inner"
    and "generate_trade_decision env strat prev (get_level_infra inner) w = (dec, strat1, w1)"
    and "execute env inner dec w1 = (r, inner1, w2)"
  shows "inner_loop env inner strat prev acc w =
           (case r of
              Inl e \<Rightarrow> (Inl e, inner1, strat1, w2)
            | Inr res \<Rightarrow> inner_loop env inner1 strat1 (Some res) (acc @ res) w2)"
  using assms
  by (subst inner_loop.simps) (simp split: sum.splits prod.splits)

lemma execute_Split_sub:
  assumes "step (calendar b) = Inr c"
    and "init_sub_trading env (b\<lparr>calendar := c\<rparr>) inner strat d w = (None, inner0, strat0, w0)"
    and "inner_loop env inner0 strat0 None [] w0 = (r1, inner1, strat1, w1)"
  shows "execute env (SplitExecutor b inner strat) d w =
           (fst (after_loop env (b\<lparr>calendar := c\<rparr>) r1 w1),
            SplitExecutor (b\<lparr>calendar := c\<rparr>) inner1 strat1,
            snd (after_loop env (b\<lparr>calendar := c\<rparr>) r1 w1))"
  using assms
  by (simp add: after_loop_def Let_def split: sum.splits option.splits prod.splits)

lemma execute_progress:
  assumes "execute env ex d w = (Inr r, ex', w')"
  shows "current_index (calendar (attrs ex)) < bar_count (calendar (attrs ex))"
    and "calendar (attrs ex') =
           (calendar (attrs ex))\<lparr>current_index := current_index (calendar (attrs ex)) + 1\<rparr>"
    and "remaining ex' < remaining ex"
proof -
  from execute_inner_loop_progress(1)[of env ex d w] assms
  have s: "step (calendar (attrs ex)) = Inr (calendar (attrs ex'))" by blast
  from step_Inr[OF s]
  show "current_index (calendar (attrs ex)) < bar_count (calendar (attrs ex))"
    and c: "calendar (attrs ex') =
           (calendar (attrs ex))\<lparr>current_index := current_index (calendar (attrs ex)) + 1\<rparr>"
    by simp_all
  then show "remaining ex' < remaining ex" by (simp add: remaining_def)
qed

lemma TradeCalendarManager_Inr:
  "TradeCalendarManager flen f t0 t1 = Inr c \<Longrightarrow>
     frequency c = f \<and> range_start c = t0 \<and> current_index c = 0 \<and> 0 < bar_count c
     \<and> flen f = Some (bar_length c)
     \<and> t0 + int (bar_count c) * int (bar_length c) = t1"
proof -
  assume a: "TradeCalendarManager flen f t0 t1 = Inr c"
  then obtain l where l: "flen f = Some l" "0 < l" "t0 < t1" "(t1 - t0) mod int l = 0"
    and c: "c = \<lparr>frequency = f, range_start = t0, bar_length = l,
                   bar_count = nat ((t1 - t0) div int l), current_index = 0\<rparr>"
    by (auto simp: TradeCalendarManager_def split: option.splits if_splits)
  from l have d: "int l dvd t1 - t0" by (simp add: dvd_eq_mod_eq_0)
  with l have "int l \<le> t1 - t0" by (intro zdvd_imp_le) simp_all
  with l have p: "0 < (t1 - t0) div int l" by (simp add: pos_imp_zdiv_pos_iff)
  from d have "(t1 - t0) div int l * int l = t1 - t0" by simp
  with p l c show ?thesis by (simp add: mult.commute)
qed

lemma init_sub_trading_None:
  assumes "init_sub_trading env b inner strat d w = (None, inner0, strat0, w0)"
  shows "reset env None None (Some (get_calendar_time (calendar b) (get_trade_index (calendar b))))
           inner w = (None, inner0, w)"
    and "w0 = w"
    and "strat0 = strategy_reset env (get_level_infra inner0) d strat"
    and "TradeCalendarManager (freq_len env) (time_per_step (attrs inner))
           (fst (get_calendar_time (calendar b) (get_trade_index (calendar b))))
           (snd (get_calendar_time (calendar b) (get_trade_index (calendar b))))
         = Inr (calendar (attrs inner0))"
proof -
  let ?tw = "get_calendar_time (calendar b) (get_trade_index (calendar b))"
  obtain r inner1 w1 where r: "reset env None None (Some ?tw) inner w = (r, inner1, w1)"
    by (cases "reset env None None (Some ?tw) inner w") auto
  from assms r have n: "r = None" and i: "inner1 = inner0" and w: "w1 = w0"
    and s: "strat0 = strategy_reset env (get_level_infra inner0) d strat"
    by (auto simp: init_sub_trading_def Let_def split: prod.splits option.splits)
  from reset_window[OF r] n i w
  show "w0 = w"
    and "TradeCalendarManager (freq_len env) (time_per_step (attrs inner)) (fst ?tw) (snd ?tw)
         = Inr (calendar (attrs inner0))"
    by simp_all
  with r n i w show "reset env None None (Some ?tw) inner w = (None, inner0, w)" by simp
  from s show "strat0 = strategy_reset env (get_level_infra inner0) d strat" .
qed

subsection \<open>The leaf executor and rejected orders\<close>

lemma deal_in_order_orders: "map fst (fst (deal_in_order env x a ds w)) = ds"
  by (induction ds arbitrary: w) (simp_all add: case_prod_beta)

lemma deal_orders_deal_in_order:
  assumes "trade_exchange b = Some x" and "trade_account b = Some a"
  shows "deal_orders env b d acc w =
           (Inr (acc @ fst (deal_in_order env x a (filter (check_order env x) d) w)),
            snd (deal_in_order env x a (filter (check_order env x) d) w))"
  using assms by (induction d arbitrary: acc w) (auto split: prod.splits)

text \<open>
  C1. As stated the claim fails: \<^verbatim>\<open>SimulatorExecutor.execute\<close> appends an entry only in the
  branch of an order that passed \<^verbatim>\<open>check_order\<close>; the branch of a rejected order does
  nothing, so a decision of one rejected order returns the empty list.
\<close>

theorem simulator_execute_rejected_order_no_entry:
  "\<not> (\<exists>res. fst (execute log_env (SimulatorExecutor leaf_fields) [void_order] []) = Inr res
          \<and> length res = length [void_order])"
  by (simp add: log_env_def leaf_fields_def void_order_def day_calendar_def step_def
        cal_finished_def Let_def get_calendar_time_def get_trade_index_def)

text \<open>
  C1, amended. On a leaf executor that has its exchange and its account, and whose calendar is
  not exhausted, \<^verbatim>\<open>execute\<close> returns normally whatever orders are rejected. The orders of
  the decision that pass \<^verbatim>\<open>check_order\<close> are dealt on the exchange for the account of the
  executor, in decision order, and the entries returned are the entries of these deals: one
  entry per dealt order, with what the deal returned, and none for a rejected order. After the
  deals the bar is closed: the bar count of the account is updated and, when the executor
  generates a report, the bar report with the bounds of the bar the calendar has stepped into.
\<close>

theorem simulator_execute_entries:
  assumes "step (calendar b) = Inr c"
    and "trade_exchange b = Some x" and "trade_account b = Some a"
    and "deal_in_order env x a (filter (check_order env x) d) w = (entries, w1)"
  shows "execute env (SimulatorExecutor b) d w =
           (Inr entries, SimulatorExecutor (b\<lparr>calendar := c\<rparr>),
            (if generate_report b
             then update_bar_report env a
                    (fst (get_calendar_time c (get_trade_index c)))
                    (snd (get_calendar_time c (get_trade_index c))) x
                    (update_bar_count env a w1)
             else update_bar_count env a w1))
       \<and> map fst entries = filter (check_order env x) d"
proof -
  from assms(2,3) have x: "trade_exchange (b\<lparr>calendar := c\<rparr>) = Some x"
    and a: "trade_account (b\<lparr>calendar := c\<rparr>) = Some a" by simp_all
  from deal_orders_deal_in_order[OF x a, of env d "[]" w] assms(4)
  have "deal_orders env (b\<lparr>calendar := c\<rparr>) d [] w = (Inr entries, w1)" by simp
  with assms(1-3) have "execute env (SimulatorExecutor b) d w =
           (Inr entries, SimulatorExecutor (b\<lparr>calendar := c\<rparr>),
            (if generate_report b
             then update_bar_report env a
                    (fst (get_calendar_time c (get_trade_index c)))
                    (snd (get_calendar_time c (get_trade_index c))) x
                    (update_bar_count env a w1)
             else update_bar_count env a w1))"
    by (simp add: Let_def case_prod_beta)
  moreover from deal_in_order_orders[of env x a "filter (check_order env x) d" w] assms(4)
  have "map fst entries = filter (check_order env x) d" by simp
  ultimately show ?thesis by simp
qed

theorem simulator_execute_entries_witness:
  "step (calendar leaf_fields) = Inr (day_calendar\<lparr>current_index := 1\<rparr>)
   \<and> trade_exchange leaf_fields = Some 0 \<and> trade_account leaf_fields = Some 1
   \<and> deal_in_order log_env 0 1 (filter (check_order log_env 0) [void_order, buy_order]) []
       = ([(buy_order, 100, 0, 1)], [Dealt 0 buy_order 1])
   \<and> execute log_env (SimulatorExecutor leaf_fields) [void_order, buy_order] []
       = (Inr [(buy_order, 100, 0, 1)],
          SimulatorExecutor (leaf_fields\<lparr>calendar := day_calendar\<lparr>current_index := 1\<rparr>\<rparr>),
          [Dealt 0 buy_order 1, BarCount 1, BarReport 1 0 2 0])"
proof -
  have s: "step (calendar leaf_fields) = Inr (day_calendar\<lparr>current_index := 1\<rparr>)"
    by (simp add: leaf_fields_def day_calendar_def step_def cal_finished_def)
  have x: "trade_exchange leaf_fields = Some 0" and a: "trade_account leaf_fields = Some 1"
    by (simp_all add: leaf_fields_def)
  have e: "deal_in_order log_env 0 1 (filter (check_order log_env 0) [void_order, buy_order]) []
             = ([(buy_order, 100, 0, 1)], [Dealt 0 buy_order 1])"
    by (simp add: log_env_def void_order_def buy_order_def)
  have g: "generate_report leaf_fields" by (simp add: leaf_fields_def)
  have u: "update_bar_report log_env 1
             (fst (get_calendar_time (day_calendar\<lparr>current_index := 1\<rparr>)
                     (get_trade_index (day_calendar\<lparr>current_index := 1\<rparr>))))
             (snd (get_calendar_time (day_calendar\<lparr>current_index := 1\<rparr>)
                     (get_trade_index (day_calendar\<lparr>current_index := 1\<rparr>)))) 0
             (update_bar_count log_env 1 [Dealt 0 buy_order 1])
           = [Dealt 0 buy_order 1, BarCount 1, BarReport 1 0 2 0]"
    by (simp add: log_env_def day_calendar_def get_calendar_time_def get_trade_index_def)
  from simulator_execute_entries[OF s x a e] s x a e g u
  show ?thesis by (simp del: execute.simps)
qed

subsection \<open>One bar close per bar and account\<close>

lemma accounts_simps [simp]:
  "accounts [] = []"
  "accounts ((k, settings b) # ls)
     = (case trade_account b of None \<Rightarrow> [] | Some a \<Rightarrow> [a]) @ accounts ls"
  by (simp_all add: accounts_def settings_def List.map_filter_simps split: option.splits)

lemma deal_orders_obs:
  assumes "records_calls env obs"
  shows "deal_orders env b d acc w = (r, w') \<Longrightarrow>
           \<exists>evs. obs w' = obs w @ evs \<and> (\<forall>e \<in> set evs. \<forall>a. \<not> closes a e)"
proof (induction d arbitrary: acc w)
  case Nil
  then show ?case by simp
next
  case (Cons ord rest)
  show ?case
  proof (cases "trade_exchange b")
    case None
    with Cons.prems show ?thesis by simp
  next
    case (Some x)
    show ?thesis
    proof (cases "check_order env x ord")
      case False
      with Some Cons show ?thesis by simp
    next
      case True
      show ?thesis
      proof (cases "trade_account b")
        case None
        with Some True Cons.prems show ?thesis by simp
      next
        case (Some a)
        obtain tv tc tp w1 where d: "deal_order env x ord a w = ((tv, tc, tp), w1)"
          by (cases "deal_order env x ord a w") auto
        from assms d have o: "obs w1 = obs w @ [Dealt x ord a]"
          by (metis records_calls_def snd_conv)
        from Cons.prems \<open>trade_exchange b = Some x\<close> True Some d
        have "deal_orders env b rest (acc @ [(ord, tv, tc, tp)]) w1 = (r, w')" by simp
        from Cons.IH[OF this] obtain evs where
          "obs w' = obs w1 @ evs" "\<forall>e \<in> set evs. \<forall>a. \<not> closes a e" by blast
        with o show ?thesis by (intro exI[of _ "Dealt x ord a # evs"]) simp
      qed
    qed
  qed
qed

lemma update_trade_account_obs:
  assumes "records_calls env obs" and "trade_account b = Some a"
    and "update_trade_account env b w = (r, w')"
  shows "(r = None \<longrightarrow> obs w' = obs w @ bar_close b a)
       \<and> (\<exists>evs. obs w' = obs w @ evs \<and> (\<forall>e \<in> set evs. \<forall>a'. closes a' e \<longrightarrow> a' = a))"
  using assms
  by (auto simp: update_trade_account_def records_calls_def bar_close_def Let_def
           split: prod.splits option.splits if_splits)

lemma simulator_execute_obs:
  assumes "records_calls env obs"
    and "execute env (SimulatorExecutor b) d w = (r, ex', w')"
  shows "\<exists>evs evs'. obs w' = obs w @ evs @ evs'
           \<and> (\<forall>e \<in> set evs. \<forall>a. \<not> closes a e)
           \<and> (\<forall>e \<in> set evs'. \<forall>a. closes a e \<longrightarrow> trade_account b = Some a)
           \<and> (\<forall>res a. r = Inr res \<longrightarrow> trade_account b = Some a \<longrightarrow> evs' = bar_close (attrs ex') a)"
proof (cases "step (calendar b)")
  case (Inl e)
  with assms(2) show ?thesis by auto
next
  case (Inr c)
  obtain r1 w1 where d: "deal_orders env (b\<lparr>calendar := c\<rparr>) d [] w = (r1, w1)"
    by (cases "deal_orders env (b\<lparr>calendar := c\<rparr>) d [] w") auto
  from deal_orders_obs[OF assms(1) d] obtain evs where
    o: "obs w1 = obs w @ evs" "\<forall>e \<in> set evs. \<forall>a. \<not> closes a e" by blast
  from assms(1) have
    c1: "\<And>a w. obs (update_bar_count env a w) = obs w @ [BarCount a]" and
    c2: "\<And>a t0 t1 x w. obs (update_bar_report env a t0 t1 x w) = obs w @ [BarReport a t0 t1 x]"
    by (simp_all add: records_calls_def)
  from assms(2) Inr d
  have "\<exists>evs'. obs w' = obs w1 @ evs'
           \<and> (\<forall>e \<in> set evs'. \<forall>a. closes a e \<longrightarrow> trade_account b = Some a)
           \<and> (\<forall>res a. r = Inr res \<longrightarrow> trade_account b = Some a \<longrightarrow> evs' = bar_close (attrs ex') a)"
    by (auto simp: Let_def bar_close_def c1 c2 split: sum.splits option.splits if_splits prod.splits)
  with o show ?thesis by auto
qed

lemma execute_inner_loop_obs:
  assumes rc: "records_calls env obs"
  shows "execute env ex d w = (r, ex', w') \<longrightarrow>
           (\<exists>evs. obs w' = obs w @ evs
              \<and> (\<forall>e \<in> set evs. \<forall>a. closes a e \<longrightarrow> a \<in> set (accounts (levels ex))))"
    and "inner_loop env inner strat prev acc w = (r1, inner', strat', w1') \<longrightarrow>
           (\<exists>evs. obs w1' = obs w @ evs
              \<and> (\<forall>e \<in> set evs. \<forall>a. closes a e \<longrightarrow> a \<in> set (accounts (levels inner))))"
  using rc
proof (induct env ex d w and env inner strat prev acc w arbitrary: r ex' w' and r1 inner' strat' w1'
    rule: execute_induct)
  case (Base env b d w)
  show ?case by auto
next
  case (Simulator env b d w)
  show ?case
  proof
    assume e: "execute env (SimulatorExecutor b) d w = (r, ex', w')"
    from simulator_execute_obs[OF Simulator e] obtain evs evs' where
      "obs w' = obs w @ evs @ evs'" "\<forall>e \<in> set evs. \<forall>a. \<not> closes a e"
      "\<forall>e \<in> set evs'. \<forall>a. closes a e \<longrightarrow> trade_account b = Some a" by blast
    then show "\<exists>evs. obs w' = obs w @ evs \<and>
        (\<forall>e \<in> set evs. \<forall>a. closes a e \<longrightarrow> a \<in> set (accounts (levels (SimulatorExecutor b))))"
      by (intro exI[of _ "evs @ evs'"]) auto
  qed
next
  case (Split env b inner strat d w)
  show ?case
  proof
    assume "execute env (SplitExecutor b inner strat) d w = (r, ex', w')"
    then show "\<exists>evs. obs w' = obs w @ evs
         \<and> (\<forall>e \<in> set evs. \<forall>a. closes a e \<longrightarrow>
               a \<in> set (accounts (levels (SplitExecutor b inner strat))))"
    proof (cases rule: execute_SplitE)
      case (exhausted e)
      then show ?thesis by simp
    next
      case (no_sub c e inner0 strat0 w0)
      with init_sub_trading_levels[OF no_sub(2)] show ?thesis by simp
    next
      case (sub c inner0 strat0 w0 r1 inner1 strat1 w1)
      from init_sub_trading_levels[OF sub(2)] have l: "levels inner0 = levels inner" "w0 = w"
        by simp_all
      from Split(1)[OF sub(1,2) Split(2), THEN mp, OF sub(3)] l
      obtain evs where e: "obs w1 = obs w @ evs"
        "\<forall>e \<in> set evs. \<forall>a. closes a e \<longrightarrow> a \<in> set (accounts (levels inner))" by auto
      show ?thesis
      proof (cases "\<exists>res a. r1 = Inr res \<and> trade_account b = Some a")
        case False
        with sub(5) have "w' = w1"
          by (auto simp: after_loop_def split: sum.splits option.splits)
        with e show ?thesis by (auto split: option.splits)
      next
        case True
        then obtain res a where r1: "r1 = Inr res" and a: "trade_account b = Some a" by blast
        obtain r2 w2 where u: "update_trade_account env (b\<lparr>calendar := c\<rparr>) w1 = (r2, w2)"
          by (cases "update_trade_account env (b\<lparr>calendar := c\<rparr>) w1") auto
        from sub(5) r1 a u have w': "w' = w2"
          by (auto simp: after_loop_def split: option.splits)
        from a have "trade_account (b\<lparr>calendar := c\<rparr>) = Some a" by simp
        from update_trade_account_obs[OF Split(2) this u]
        obtain evs2 where e2: "obs w2 = obs w1 @ evs2"
          "\<forall>e \<in> set evs2. \<forall>a'. closes a' e \<longrightarrow> a' = a"
          by blast
        from e(2) e2(2)
        have "\<forall>e \<in> set (evs @ evs2). \<forall>a'. closes a' e \<longrightarrow>
                a' \<in> insert a (set (accounts (levels inner)))"
          by auto
        with e(1) e2(1) w' a show ?thesis
          by (intro exI[of _ "evs @ evs2"]) simp
      qed
    qed
  qed
next
  case (Loop env inner strat prev acc w)
  show ?case
  proof
    assume "inner_loop env inner strat prev acc w = (r1, inner', strat', w1')"
    then show "\<exists>evs. obs w1' = obs w @ evs
       \<and> (\<forall>e \<in> set evs. \<forall>a. closes a e \<longrightarrow> a \<in> set (accounts (levels inner)))"
    proof (cases rule: inner_loopE)
      case finished
      then show ?thesis by simp
    next
      case (failed dec strat1 w1 e inner1 w2)
      from Loop(3) failed(2) have "obs w1 = obs w"
        by (metis records_calls_def snd_conv)
      with Loop(1)[OF failed(1,2) Loop(3), THEN mp, OF failed(3)] failed show ?thesis by auto
    next
      case (iterated dec strat1 w1 res inner1 w2)
      from Loop(3) iterated(2) have g: "obs w1 = obs w"
        by (metis records_calls_def snd_conv)
      from Loop(1)[OF iterated(1,2) Loop(3), THEN mp, OF iterated(3)] g
      obtain evs1 where e1: "obs w2 = obs w @ evs1"
        "\<forall>e \<in> set evs1. \<forall>a. closes a e \<longrightarrow> a \<in> set (accounts (levels inner))" by auto
      from execute_inner_loop_levels(1)[of env inner dec w1] iterated(3)
      have l: "levels inner1 = levels inner" by simp
      from Loop(2)[OF iterated(1,2,3) Loop(3), THEN mp, OF iterated(4)] l
      obtain evs2 where e2: "obs w1' = obs w2 @ evs2"
        "\<forall>e \<in> set evs2. \<forall>a. closes a e \<longrightarrow> a \<in> set (accounts (levels inner))" by auto
      from e1 e2 show ?thesis by (intro exI[of _ "evs1 @ evs2"]) auto
    qed
  qed
qed

text \<open>
  C2. Let the account of an executor be the account of none of the levels nested in it, as is
  the case after \<^verbatim>\<open>reset_common_infra\<close>, where every level takes a copy of its own. When
  \<^verbatim>\<open>execute\<close> of a \<^verbatim>\<open>SimulatorExecutor\<close> or of a \<^verbatim>\<open>SplitExecutor\<close> returns a result,
  the calls it has made are: first calls that do not close a bar of this account (the deals of
  the orders of a leaf, everything the inner loop of a composite does), and then, last, the bar
  close of this executor: one bar-count update of the account and, when the executor generates
  a report, one bar-report update with the bounds of the bar.
\<close>

theorem bar_closed_exactly_once:
  assumes "records_calls env obs"
    and "execute env ex d w = (Inr res, ex', w')"
    and "trade_account (attrs ex) = Some a"
    and "a \<notin> set (accounts (tl (levels ex)))"
  shows "\<exists>evs. obs w' = obs w @ evs @ bar_close (attrs ex') a \<and> (\<forall>e \<in> set evs. \<not> closes a e)"
proof (cases ex)
  case (BaseExecutor b)
  with assms(2) show ?thesis by simp
next
  case (SimulatorExecutor b)
  from simulator_execute_obs[OF assms(1) assms(2)[unfolded SimulatorExecutor]] assms(3)
    SimulatorExecutor
  obtain evs where "obs w' = obs w @ evs @ bar_close (attrs ex') a"
    "\<forall>e \<in> set evs. \<forall>a. \<not> closes a e" by auto
  then show ?thesis by blast
next
  case (SplitExecutor b inner strat)
  from assms(2)[unfolded SplitExecutor] show ?thesis
  proof (cases rule: execute_SplitE)
    case (exhausted e)
    then show ?thesis by simp
  next
    case (no_sub c e inner0 strat0 w0)
    then show ?thesis by simp
  next
    case (sub c inner0 strat0 w0 r1 inner1 strat1 w1)
    from init_sub_trading_levels[OF sub(2)] have l: "levels inner0 = levels inner" "w0 = w"
      by simp_all
    from execute_inner_loop_obs(2)[OF assms(1), THEN mp, OF sub(3)] l
    obtain evs where e: "obs w1 = obs w @ evs"
      "\<forall>e \<in> set evs. \<forall>a. closes a e \<longrightarrow> a \<in> set (accounts (levels inner))" by auto
    from assms(3) SplitExecutor have a: "trade_account (b\<lparr>calendar := c\<rparr>) = Some a" by simp
    obtain r2 w2 where u: "update_trade_account env (b\<lparr>calendar := c\<rparr>) w1 = (r2, w2)"
      by (cases "update_trade_account env (b\<lparr>calendar := c\<rparr>) w1") auto
    from sub(5) a u have "r2 = None" "w' = w2"
      by (auto simp: after_loop_def split: sum.splits option.splits)
    with update_trade_account_obs[OF assms(1) a u]
    have "obs w' = obs w1 @ bar_close (b\<lparr>calendar := c\<rparr>) a" by simp
    moreover from e(2) assms(4) SplitExecutor have "\<forall>e \<in> set evs. \<not> closes a e" by auto
    ultimately show ?thesis using e(1) sub(4) by (intro exI[of _ evs]) simp
  qed
qed

theorem bar_closed_exactly_once_witness:
  "records_calls log_env (\<lambda>w. w)
   \<and> trade_account (attrs nested_executor) = Some 2
   \<and> 2 \<notin> set (accounts (tl (levels nested_executor)))
   \<and> (\<exists>res ex' w'.
         execute log_env nested_executor [buy_order, void_order] [] = (Inr res, ex', w')
       \<and> (\<exists>evs. w' = [] @ evs @ bar_close (attrs ex') 2 \<and> (\<forall>e \<in> set evs. \<not> closes 2 e)))"
proof -
  have rc: "records_calls log_env (\<lambda>w. w)"
    by (simp add: records_calls_def log_env_def)
  have a: "trade_account (attrs nested_executor) = Some 2"
    by (simp add: nested_executor_def split_fields_def)
  have n: "2 \<notin> set (accounts (tl (levels nested_executor)))"
    by (simp add: nested_executor_def halfday_fields_def)
  have "fst (execute log_env nested_executor [buy_order, void_order] [])
          = Inr [(buy_order, 100, 0, 1), (buy_order, 100, 0, 1)]"
    by code_simp
  then obtain ex' w' where
    e: "execute log_env nested_executor [buy_order, void_order] []
          = (Inr [(buy_order, 100, 0, 1), (buy_order, 100, 0, 1)], ex', w')"
    by (metis prod.collapse)
  from bar_closed_exactly_once[OF rc e a n] rc a n e show ?thesis by blast
qed

subsection \<open>The abstract operations\<close>

lemma report_entry_error:
  "report_entry env b w = Inl e \<Longrightarrow> e = InvalidConfig \<or> (\<exists>m. e = AttributeError m)"
  by (auto simp: report_entry_def Let_def split: option.splits)

lemma get_report_implemented:
  "concrete ex \<Longrightarrow> get_report env ex w \<noteq> Inl (NotImplementedError m)"
proof (induction ex)
  case (BaseExecutor b)
  then show ?case by (simp add: concrete_def)
next
  case (SimulatorExecutor b)
  then show ?case by (auto split: sum.splits dest: report_entry_error)
next
  case (SplitExecutor b inner strat)
  then show ?case by (auto simp: concrete_def split: sum.splits dest: report_entry_error)
qed

text \<open>
  C8. As stated the claim fails in its last part: no subclass overrides
  \<^verbatim>\<open>get_trade_account\<close>, so on a \<^verbatim>\<open>SimulatorExecutor\<close> it still fails with the
  not-supported error; and \<^verbatim>\<open>SplitExecutor.execute\<close> passes on the error of an inner
  executor that is an instance of the base class.
\<close>

theorem abstract_operations_on_subclasses:
  "get_trade_account (SimulatorExecutor leaf_fields)
     = Inl (NotImplementedError ''get_trade_account is not implemented!'')
   \<and> fst (execute log_env (SplitExecutor split_fields (BaseExecutor halfday_fields) [])
            [buy_order] [])
     = Inl (NotImplementedError ''execute is not implemented!'')"
  by (simp add: get_trade_account_def) code_simp

text \<open>
  C8, amended. On the abstract base, \<^verbatim>\<open>execute\<close> and \<^verbatim>\<open>get_report\<close> fail with the
  not-supported error for every input and leave the executor and the world as they were.
  \<^verbatim>\<open>get_trade_account\<close> fails with it on every executor, since no subclass overrides it. On
  an executor none of whose levels is an instance of the base class, \<^verbatim>\<open>execute\<close> and
  \<^verbatim>\<open>get_report\<close> never fail with the not-supported error.
\<close>

theorem not_supported_on_abstract_base:
  "execute env (BaseExecutor b) d w
     = (Inl (NotImplementedError ''execute is not implemented!''), BaseExecutor b, w)
   \<and> get_report env (BaseExecutor b) w
     = Inl (NotImplementedError ''get_report is not implemented!'')
   \<and> get_trade_account ex = Inl (NotImplementedError ''get_trade_account is not implemented!'')
   \<and> (concrete ex \<longrightarrow>
        (\<forall>m. fst (execute env ex d' w') \<noteq> Inl (NotImplementedError m))
        \<and> (\<forall>m. get_report env ex w' \<noteq> Inl (NotImplementedError m)))"
proof -
  have "fst (execute env ex d' w') \<noteq> Inl (NotImplementedError m)" if "concrete ex" for m
    using execute_inner_loop_implemented(1)[of ex env d' w' "fst (execute env ex d' w')"
        "fst (snd (execute env ex d' w'))" "snd (snd (execute env ex d' w'))" m] that
    by simp
  then show ?thesis
    by (simp add: get_trade_account_def get_report_implemented)
qed

theorem not_supported_on_abstract_base_witness:
  "concrete nested_executor
   \<and> (\<forall>m. fst (execute log_env nested_executor [buy_order] []) \<noteq> Inl (NotImplementedError m))
   \<and> (\<forall>m. get_report log_env nested_executor [] \<noteq> Inl (NotImplementedError m))
   \<and> execute log_env (BaseExecutor leaf_fields) [buy_order] []
     = (Inl (NotImplementedError ''execute is not implemented!''), BaseExecutor leaf_fields, [])"
proof -
  have c: "concrete nested_executor"
    by (simp add: concrete_def nested_executor_def)
  from not_supported_on_abstract_base[of log_env leaf_fields "[buy_order]" "[]"
      nested_executor "[buy_order]" "[]"] c
  show ?thesis by blast
qed

subsection \<open>The report mapping\<close>

text \<open>
  C9. When \<^verbatim>\<open>get_report\<close> of a composite executor returns a mapping, the inner executor's
  \<^verbatim>\<open>get_report\<close> returned a mapping too, and the result is that mapping, updated, only
  when the composite generates a report, at the label \<^verbatim>\<open>str(count) + freq\<close> of its own
  \<^verbatim>\<open>time_per_step\<close> with the pair of its account's report frame and positions. A leaf
  executor returns the mapping of its one entry when it generates a report and the empty
  mapping when it does not.
\<close>

theorem get_report_merges_own_entry:
  "(get_report env (SplitExecutor b inner strat) w = Inr m \<longrightarrow>
      (\<exists>sub. get_report env inner w = Inr sub \<and>
         (if generate_report b
          then \<exists>a count freq. trade_account b = Some a
                 \<and> parse_freq env (time_per_step b) = Some (count, freq)
                 \<and> m = sub(str count @ freq \<mapsto>
                           (generate_report_dataframe env a w, get_positions env a w))
          else m = sub)))
   \<and> (get_report env (SimulatorExecutor b') w = Inr m' \<longrightarrow>
      (if generate_report b'
       then \<exists>a count freq. trade_account b' = Some a
              \<and> parse_freq env (time_per_step b') = Some (count, freq)
              \<and> m' = [str count @ freq \<mapsto>
                        (generate_report_dataframe env a w, get_positions env a w)]
       else m' = Map.empty))
   \<and> (\<not> generate_report b' \<longrightarrow> get_report env (SimulatorExecutor b') w = Inr Map.empty)"
  by (auto simp: report_entry_def Let_def split: sum.splits option.splits if_splits)

theorem get_report_merges_own_entry_witness:
  "get_report log_env nested_executor [BarCount 2, BarReport 2 0 2 0]
     = Inr [''1halfday'' \<mapsto> ([], []), ''1day'' \<mapsto> ([BarReport 2 0 2 0], [])]
   \<and> (\<exists>sub. get_report log_env (SimulatorExecutor halfday_fields) [BarCount 2, BarReport 2 0 2 0]
                = Inr sub
         \<and> (if generate_report split_fields
             then \<exists>a count freq. trade_account split_fields = Some a
                    \<and> parse_freq log_env (time_per_step split_fields) = Some (count, freq)
                    \<and> [''1halfday'' \<mapsto> ([], []), ''1day'' \<mapsto> ([BarReport 2 0 2 0], [])]
                        = sub(str count @ freq \<mapsto>
                            (generate_report_dataframe log_env a [BarCount 2, BarReport 2 0 2 0],
                             get_positions log_env a [BarCount 2, BarReport 2 0 2 0]))
             else [''1halfday'' \<mapsto> ([], []), ''1day'' \<mapsto> ([BarReport 2 0 2 0], [])] = sub))"
proof -
  have g: "get_report log_env (SplitExecutor split_fields (SimulatorExecutor halfday_fields) [])
             [BarCount 2, BarReport 2 0 2 0]
     = Inr [''1halfday'' \<mapsto> ([], []), ''1day'' \<mapsto> ([BarReport 2 0 2 0], [])]"
    by (simp add: split_fields_def halfday_fields_def log_env_def report_entry_def str.simps)
  from get_report_merges_own_entry[of log_env split_fields "SimulatorExecutor halfday_fields" "[]"
      "[BarCount 2, BarReport 2 0 2 0]"
      "[''1halfday'' \<mapsto> ([], []), ''1day'' \<mapsto> ([BarReport 2 0 2 0], [])]"] g
  show ?thesis unfolding nested_executor_def by blast
qed

subsection \<open>The deal price of a new exchange\<close>

text \<open>
  C10. As stated the claim fails for the empty string: \<^verbatim>\<open>deal_price[0]\<close> raises
  \<^verbatim>\<open>IndexError\<close> and no exchange is constructed.
\<close>

theorem get_exchange_empty_deal_price:
  "get_exchange default_config (\<lambda>c::nat. c) (default_args\<lparr>arg_deal_price := Some ''''\<rparr>)
     = Inl IndexError"
  by (simp add: get_exchange_def default_args_def)

text \<open>
  C10, amended. With \<^verbatim>\<open>exchange=None\<close> and a deal price (the argument, or the
  configuration's when the argument is \<^verbatim>\<open>None\<close>) that is not the empty string, the
  exchange is constructed with a deal price that starts with \<^verbatim>\<open>$\<close>: the given one when it
  starts with \<^verbatim>\<open>$\<close>, and the given one with \<^verbatim>\<open>$\<close> in front of it otherwise. With an
  exchange given, the result is what \<^verbatim>\<open>init_instance_by_config\<close> returns for it, whatever
  the deal price argument is.
\<close>

theorem get_exchange_deal_price:
  "(arg_exchange args = None
      \<and> dp = (case arg_deal_price args of None \<Rightarrow> C_deal_price C | Some p \<Rightarrow> p) \<and> dp \<noteq> []
    \<longrightarrow> (\<exists>kw. get_exchange C init args = Inr (Exchange kw)
           \<and> kw_deal_price kw = (if hd dp = CHR ''$'' then dp else CHR ''$'' # dp)
           \<and> hd (kw_deal_price kw) = CHR ''$''))
   \<and> (arg_exchange args = Some e
    \<longrightarrow> (\<forall>p. get_exchange C init (args\<lparr>arg_deal_price := p\<rparr>) = Inr (Instance (init e))))"
  by (cases dp) (auto simp: get_exchange_def Let_def split: option.splits list.splits)

theorem get_exchange_deal_price_witness:
  "(\<exists>kw. get_exchange default_config (\<lambda>c::nat. c) (default_args\<lparr>arg_deal_price := Some ''open''\<rparr>)
           = Inr (Exchange kw) \<and> kw_deal_price kw = ''$open'')
   \<and> (\<forall>p. get_exchange default_config (\<lambda>c::nat. c)
          (default_args\<lparr>arg_exchange := Some 7, arg_deal_price := p\<rparr>) = Inr (Instance 7))"
proof -
  let ?a = "default_args\<lparr>arg_deal_price := Some ''open''\<rparr>"
  let ?g = "default_args\<lparr>arg_exchange := Some 7\<rparr>"
  have h: "arg_exchange ?a = None
      \<and> ''open'' = (case arg_deal_price ?a of None \<Rightarrow> C_deal_price default_config | Some p \<Rightarrow> p)
      \<and> ''open'' \<noteq> []"
    by (simp add: default_args_def)
  have k: "arg_exchange ?g = Some 7" by simp
  from get_exchange_deal_price[of ?a "''open''" default_config "\<lambda>c::nat. c"] h
  have "\<exists>kw. get_exchange default_config (\<lambda>c::nat. c) ?a = Inr (Exchange kw)
          \<and> kw_deal_price kw = (if hd ''open'' = CHR ''$'' then ''open'' else CHR ''$'' # ''open'')"
    by blast
  then have 1: "\<exists>kw. get_exchange default_config (\<lambda>c::nat. c) ?a = Inr (Exchange kw)
          \<and> kw_deal_price kw = ''$open''" by simp
  from get_exchange_deal_price[of ?g _ default_config "\<lambda>c::nat. c" 7] k
  have 2: "\<forall>p. get_exchange default_config (\<lambda>c::nat. c) (?g\<lparr>arg_deal_price := p\<rparr>)
             = Inr (Instance 7)" by blast
  from 1 2 show ?thesis by simp
qed

subsection \<open>The inner loop of the composite executor\<close>

lemma aggregate_simps [simp]:
  "aggregate [] = []"
  "aggregate (i # its) = (case outcome i of Inl e \<Rightarrow> [] | Inr r \<Rightarrow> r) @ aggregate its"
  by (simp_all add: aggregate_def)

lemma failure_simps [simp]:
  "failure [] = None"
  "failure [i] = (case outcome i of Inl e \<Rightarrow> Some e | Inr r \<Rightarrow> None)"
  "its \<noteq> [] \<Longrightarrow> failure (i # its) = failure its"
  by (simp_all add: failure_def split: list.splits)

lemma aggregate_result: "aggregate its = concat (map result its)"
  by (simp add: aggregate_def result_def[abs_def])

lemma inner_loop_run:
  "\<exists>its. sub_trading env inner strat prev w its
            (fst (snd (inner_loop env inner strat prev acc w)))
            (fst (snd (snd (inner_loop env inner strat prev acc w))))
            (snd (snd (snd (inner_loop env inner strat prev acc w))))
        \<and> fst (inner_loop env inner strat prev acc w)
            = (case failure its of None \<Rightarrow> Inr (acc @ aggregate its) | Some e \<Rightarrow> Inl e)"
proof (induction "remaining inner" arbitrary: inner strat prev acc w rule: less_induct)
  case less
  show ?case
  proof (cases "finished inner")
    case True
    with sub_trading.finished[OF True, of env strat prev w] show ?thesis
      by (intro exI[of _ "[]"]) (simp add: inner_loop_finished)
  next
    case False
    obtain dec strat1 w1 where
      g: "generate_trade_decision env strat prev (get_level_infra inner) w = (dec, strat1, w1)"
      by (cases "generate_trade_decision env strat prev (get_level_infra inner) w") auto
    obtain r inner1 w2 where e: "execute env inner dec w1 = (r, inner1, w2)"
      by (cases "execute env inner dec w1") auto
    show ?thesis
    proof (cases r)
      case (Inl err)
      from sub_trading.failed[OF False g e[unfolded Inl]] inner_loop_step[OF False g e, of acc] Inl
      show ?thesis
        by (intro exI[of _ "[Iteration (current_index (calendar (attrs inner))) prev dec (Inl err)]"]) simp
    next
      case (Inr res)
      let ?l = "inner_loop env inner1 strat1 (Some res) (acc @ res) w2"
      from execute_progress(3)[OF e[unfolded Inr]] have "remaining inner1 < remaining inner" .
      from less[OF this, of strat1 "Some res" w2 "acc @ res"]
      obtain its where
        s: "sub_trading env inner1 strat1 (Some res) w2 its
              (fst (snd ?l)) (fst (snd (snd ?l))) (snd (snd (snd ?l)))"
        and f: "fst ?l = (case failure its of None \<Rightarrow> Inr ((acc @ res) @ aggregate its)
                           | Some e \<Rightarrow> Inl e)"
        by blast
      let ?i = "Iteration (current_index (calendar (attrs inner))) prev dec (Inr res)"
      have l: "inner_loop env inner strat prev acc w = ?l"
        using inner_loop_step[OF False g e, of acc] Inr by simp
      have "failure (?i # its) = failure its" by (cases its) simp_all
      with sub_trading.iterated[OF False g e[unfolded Inr] s] f l
      show ?thesis by (intro exI[of _ "?i # its"]) (simp split: option.splits)
    qed
  qed
qed

lemma inner_loop_runE:
  assumes "inner_loop env inner strat prev [] w = (r, inner', strat', w')"
  obtains its where "sub_trading env inner strat prev w its inner' strat' w'"
    and "r = (case failure its of None \<Rightarrow> Inr (aggregate its) | Some e \<Rightarrow> Inl e)"
proof -
  from inner_loop_run[of env inner strat prev w "[]"] assms
  obtain its where s: "sub_trading env inner strat prev w its inner' strat' w'"
    and r: "r = (case failure its of None \<Rightarrow> Inr ([] @ aggregate its) | Some e \<Rightarrow> Inl e)"
    by auto
  from r have "r = (case failure its of None \<Rightarrow> Inr (aggregate its) | Some e \<Rightarrow> Inl e)"
    by (simp split: option.splits)
  with s that show ?thesis by blast
qed

lemma sub_trading_bars:
  "sub_trading env inner strat prev w its inner' strat' w' \<Longrightarrow>
     map bar its = [current_index (calendar (attrs inner))
                     ..< current_index (calendar (attrs inner)) + length its]
     \<and> length its \<le> remaining inner
     \<and> (failure its = None \<longrightarrow>
          finished inner'
          \<and> calendar (attrs inner') =
              (calendar (attrs inner))\<lparr>current_index :=
                 current_index (calendar (attrs inner)) + length its\<rparr>)"
proof (induction rule: sub_trading.induct)
  case (finished inner strat prev w)
  then show ?case by simp
next
  case (failed inner strat prev w dec strat1 w1 e inner1 w2)
  then show ?case by (simp add: finished_def cal_finished_def remaining_def)
next
  case (iterated inner strat prev w dec strat1 w1 r inner1 w2 its inner' strat' w')
  from execute_progress[OF iterated(3)] iterated(5)
  show ?case
    by (cases its) (auto simp: remaining_def upt_rec[of "current_index (calendar (attrs inner))"])
qed

lemma sub_trading_given_result:
  "sub_trading env inner strat prev w its inner' strat' w' \<Longrightarrow>
     map given its = take (length its) (prev # map (\<lambda>i. Some (result i)) its)
     \<and> (failure its = None \<longrightarrow> (\<forall>i \<in> set its. outcome i = Inr (result i)))"
proof (induction rule: sub_trading.induct)
  case (finished inner strat prev w)
  then show ?case by simp
next
  case (failed inner strat prev w dec strat1 w1 e inner1 w2)
  then show ?case by (simp add: result_def)
next
  case (iterated inner strat prev w dec strat1 w1 r inner1 w2 its inner' strat' w')
  then show ?case by (cases its) (auto simp: result_def)
qed

text \<open>
  C6. Once the outer calendar has stepped and the inner executor and strategy have been reset,
  the loop of \<^verbatim>\<open>SplitExecutor.execute\<close> is a finite run: the inner calendar built from the
  bounds of the outer bar starts at index 0 and its bar count times the bar length of the inner
  frequency is the length of the outer bar; the iterations of the run start at the inner
  calendar indices 0, 1, 2, ... in turn, so there are at most bar count of them; and a loop that
  ends without an error has made exactly bar count iterations and leaves the inner executor
  finished.
\<close>

theorem split_inner_loop_terminates:
  assumes "step (calendar b) = Inr c"
    and "init_sub_trading env (b\<lparr>calendar := c\<rparr>) inner strat d w = (None, inner0, strat0, w0)"
  shows "\<exists>its r inner1 strat1 w1.
           inner_loop env inner0 strat0 None [] w0 = (r, inner1, strat1, w1)
         \<and> sub_trading env inner0 strat0 None w0 its inner1 strat1 w1
         \<and> r = (case failure its of None \<Rightarrow> Inr (aggregate its) | Some e \<Rightarrow> Inl e)
         \<and> current_index (calendar (attrs inner0)) = 0
         \<and> fst (get_calendar_time c (get_trade_index c))
              + int (bar_count (calendar (attrs inner0))) * int (bar_length (calendar (attrs inner0)))
            = snd (get_calendar_time c (get_trade_index c))
         \<and> map bar its = [0 ..< length its]
         \<and> length its \<le> bar_count (calendar (attrs inner0))
         \<and> (failure its = None \<longrightarrow>
               finished inner1 \<and> length its = bar_count (calendar (attrs inner0))
               \<and> current_index (calendar (attrs inner1)) = bar_count (calendar (attrs inner0)))"
proof -
  obtain r inner1 strat1 w1 where
    l: "inner_loop env inner0 strat0 None [] w0 = (r, inner1, strat1, w1)"
    by (cases "inner_loop env inner0 strat0 None [] w0") auto
  from l obtain its where s: "sub_trading env inner0 strat0 None w0 its inner1 strat1 w1"
    and r: "r = (case failure its of None \<Rightarrow> Inr (aggregate its) | Some e \<Rightarrow> Inl e)"
    by (rule inner_loop_runE)
  from TradeCalendarManager_Inr[OF init_sub_trading_None(4)[OF assms(2)]]
  have z: "current_index (calendar (attrs inner0)) = 0"
    and t: "fst (get_calendar_time c (get_trade_index c))
              + int (bar_count (calendar (attrs inner0))) * int (bar_length (calendar (attrs inner0)))
            = snd (get_calendar_time c (get_trade_index c))"
    by simp_all
  from sub_trading_bars[OF s] z
  have b: "map bar its = [0 ..< length its]"
    and n: "length its \<le> bar_count (calendar (attrs inner0))"
    and f: "failure its = None \<longrightarrow>
              finished inner1 \<and> length its = bar_count (calendar (attrs inner0))
              \<and> current_index (calendar (attrs inner1)) = bar_count (calendar (attrs inner0))"
    by (auto simp: remaining_def finished_def cal_finished_def)
  from l s r z t b n f show ?thesis by (intro exI conjI) assumption+
qed

theorem split_inner_loop_terminates_witness:
  "step (calendar split_fields) = Inr (day_calendar\<lparr>current_index := 1\<rparr>)
   \<and> init_sub_trading log_env (split_fields\<lparr>calendar := day_calendar\<lparr>current_index := 1\<rparr>\<rparr>)
          (SimulatorExecutor halfday_fields) [] [buy_order, void_order] []
        = (None, started_inner, [buy_order], [])
   \<and> (\<exists>its r inner1 strat1 w1.
         inner_loop log_env started_inner [buy_order] None [] [] = (r, inner1, strat1, w1)
       \<and> sub_trading log_env started_inner [buy_order] None [] its inner1 strat1 w1
       \<and> map bar its = [0 ..< length its]
       \<and> length its \<le> bar_count (calendar (attrs started_inner)))"
proof -
  have s: "step (calendar split_fields) = Inr (day_calendar\<lparr>current_index := 1\<rparr>)"
    by (simp add: split_fields_def day_calendar_def step_def cal_finished_def)
  have i: "init_sub_trading log_env (split_fields\<lparr>calendar := day_calendar\<lparr>current_index := 1\<rparr>\<rparr>)
          (SimulatorExecutor halfday_fields) [] [buy_order, void_order] []
        = (None, started_inner, [buy_order], [])"
    by code_simp
  from split_inner_loop_terminates[OF s i] s i show ?thesis by blast
qed

text \<open>
  C3. When \<^verbatim>\<open>SplitExecutor.execute\<close> returns a result, the outer calendar has advanced by
  one bar; the inner executor was reset to a calendar that starts at index 0 and spans exactly
  the bounds of that bar, the inner strategy was reset with the inner executor's level
  infrastructure and the outer decision; the loop ran from there until the inner executor was
  finished; the strategy was given nothing in the first iteration and the result of the
  iteration before in every later one; and the result returned is the results of all
  iterations appended.
\<close>

theorem split_execute_sub_trading:
  assumes "execute env (SplitExecutor b inner strat) d w = (Inr res, ex', w')"
  shows "\<exists>c inner0 its inner1 strat1 w1.
           step (calendar b) = Inr c
         \<and> c = (calendar b)\<lparr>current_index := current_index (calendar b) + 1\<rparr>
         \<and> reset env None None (Some (get_calendar_time c (get_trade_index c))) inner w
             = (None, inner0, w)
         \<and> range_start (calendar (attrs inner0)) = fst (get_calendar_time c (get_trade_index c))
         \<and> range_start (calendar (attrs inner0))
              + int (bar_count (calendar (attrs inner0))) * int (bar_length (calendar (attrs inner0)))
             = snd (get_calendar_time c (get_trade_index c))
         \<and> current_index (calendar (attrs inner0)) = 0
         \<and> sub_trading env inner0 (strategy_reset env (get_level_infra inner0) d strat) None w
             its inner1 strat1 w1
         \<and> finished inner1
         \<and> map given its = take (length its) (None # map (\<lambda>i. Some (result i)) its)
         \<and> map outcome its = map (\<lambda>i. Inr (result i)) its
         \<and> res = concat (map result its)
         \<and> ex' = SplitExecutor (b\<lparr>calendar := c\<rparr>) inner1 strat1
         \<and> w' = (case trade_account b of
                   None \<Rightarrow> w1
                 | Some a \<Rightarrow> snd (update_trade_account env (b\<lparr>calendar := c\<rparr>) w1))"
  using assms
proof (cases rule: execute_SplitE)
  case (exhausted e)
  then show ?thesis by simp
next
  case (no_sub c e inner0 strat0 w0)
  then show ?thesis by simp
next
  case (sub c inner0 strat0 w0 r1 inner1 strat1 w1)
  note i = init_sub_trading_None[OF sub(2)]
  from sub(5) obtain res1 where r1: "r1 = Inr res1" and res: "res1 = res"
    and w': "w' = (case trade_account b of
                   None \<Rightarrow> w1
                 | Some a \<Rightarrow> snd (update_trade_account env (b\<lparr>calendar := c\<rparr>) w1))"
    by (auto simp: after_loop_def split: sum.splits option.splits prod.splits)
  from sub(3) obtain its where s: "sub_trading env inner0 strat0 None w0 its inner1 strat1 w1"
    and r: "r1 = (case failure its of None \<Rightarrow> Inr (aggregate its) | Some e \<Rightarrow> Inl e)"
    by (rule inner_loop_runE)
  from r r1 res have f: "failure its = None" and a: "res = aggregate its"
    by (auto split: option.splits)
  from TradeCalendarManager_Inr[OF i(4)]
  have c0: "range_start (calendar (attrs inner0)) = fst (get_calendar_time c (get_trade_index c))"
    "range_start (calendar (attrs inner0))
       + int (bar_count (calendar (attrs inner0))) * int (bar_length (calendar (attrs inner0)))
     = snd (get_calendar_time c (get_trade_index c))"
    "current_index (calendar (attrs inner0)) = 0"
    by simp_all
  from sub_trading_bars[OF s] f have fin: "finished inner1" by simp
  from sub_trading_given_result[OF s] f
  have g: "map given its = take (length its) (None # map (\<lambda>i. Some (result i)) its)"
    and o: "map outcome its = map (\<lambda>i. Inr (result i)) its"
    by auto
  from step_Inr[OF sub(1)]
  have c: "c = (calendar b)\<lparr>current_index := current_index (calendar b) + 1\<rparr>" by simp
  from s i(2,3) have s': "sub_trading env inner0
      (strategy_reset env (get_level_infra inner0) d strat) None w its inner1 strat1 w1" by simp
  from sub(1) c i(1) c0 s' fin g o a[unfolded aggregate_result] sub(4) w'
  show ?thesis by (simp del: execute.simps) blast
qed

theorem split_execute_sub_trading_witness:
  "\<exists>res ex' w'.
      execute log_env (SplitExecutor split_fields (SimulatorExecutor halfday_fields) [])
        [buy_order, void_order] [] = (Inr res, ex', w')
    \<and> (\<exists>c inner0 its inner1 strat1 w1.
          step (calendar split_fields) = Inr c
        \<and> reset log_env None None (Some (get_calendar_time c (get_trade_index c)))
            (SimulatorExecutor halfday_fields) [] = (None, inner0, [])
        \<and> sub_trading log_env inner0
            (strategy_reset log_env (get_level_infra inner0) [buy_order, void_order] []) None []
            its inner1 strat1 w1
        \<and> finished inner1
        \<and> map given its = take (length its) (None # map (\<lambda>i. Some (result i)) its)
        \<and> res = concat (map result its)
        \<and> ex' = SplitExecutor (split_fields\<lparr>calendar := c\<rparr>) inner1 strat1)"
proof -
  have "fst (execute log_env (SplitExecutor split_fields (SimulatorExecutor halfday_fields) [])
          [buy_order, void_order] []) = Inr [(buy_order, 100, 0, 1), (buy_order, 100, 0, 1)]"
    by code_simp
  then obtain ex' w' where
    e: "execute log_env (SplitExecutor split_fields (SimulatorExecutor halfday_fields) [])
          [buy_order, void_order] [] = (Inr [(buy_order, 100, 0, 1), (buy_order, 100, 0, 1)], ex', w')"
    by (metis prod.collapse)
  from split_execute_sub_trading[OF e] e show ?thesis by blast
qed

subsection \<open>The generator \<^verbatim>\<open>collect_data\<close>\<close>

lemma collect_loop_finished:
  "finished inner \<Longrightarrow> collect_loop env b1 inner strat prev acc w = ([], Inr acc, inner, strat, w)"
  by (subst collect_loop.simps) simp

lemma collect_loop_step:
  assumes "\<not> finished inner"
    and "generate_trade_decision env strat prev (get_level_infra inner) w = (dec, strat1, w1)"
    and "collect_data env inner dec w1 = (ys, r, inner1, w2)"
  shows "collect_loop env b1 inner strat prev acc w =
           (case r of
              Inl e \<Rightarrow> (map (suspended_in b1 strat1) ys, Inl e, inner1, strat1, w2)
            | Inr res \<Rightarrow>
                (map (suspended_in b1 strat1) ys
                   @ fst (collect_loop env b1 inner1 strat1 (Some res) (acc @ res) w2),
                 snd (collect_loop env b1 inner1 strat1 (Some res) (acc @ res) w2)))"
  using assms
  by (subst collect_loop.simps) (simp split: sum.splits prod.splits)

lemma collect_data_Split_sub:
  assumes "step (calendar b) = Inr c"
    and "init_sub_trading env (b\<lparr>calendar := c\<rparr>) inner strat d w = (None, inner0, strat0, w0)"
    and "collect_loop env (b\<lparr>calendar := c\<rparr>) inner0 strat0 None [] w0 = (ys, r1, inner1, strat1, w1)"
  shows "collect_data env (SplitExecutor b inner strat) d w =
           (own_item (SplitExecutor b inner strat) d w @ ys,
            fst (after_loop env (b\<lparr>calendar := c\<rparr>) r1 w1),
            SplitExecutor (b\<lparr>calendar := c\<rparr>) inner1 strat1,
            snd (after_loop env (b\<lparr>calendar := c\<rparr>) r1 w1))"
  using assms
  by (simp add: after_loop_def own_item_def Let_def split: sum.splits option.splits prod.splits)

lemma collect_data_Split_exhausted:
  assumes "step (calendar b) = Inl e"
  shows "collect_data env (SplitExecutor b inner strat) d w =
           (own_item (SplitExecutor b inner strat) d w, Inl e, SplitExecutor b inner strat, w)"
  using assms by (simp add: own_item_def Let_def)

lemma collect_data_Split_no_sub:
  assumes "step (calendar b) = Inr c"
    and "init_sub_trading env (b\<lparr>calendar := c\<rparr>) inner strat d w = (Some e, inner0, strat0, w0)"
  shows "collect_data env (SplitExecutor b inner strat) d w =
           (own_item (SplitExecutor b inner strat) d w, Inl e,
            SplitExecutor (b\<lparr>calendar := c\<rparr>) inner0 strat0, w0)"
  using assms by (simp add: own_item_def Let_def)

lemma collect_data_leaf:
  "collect_data env (BaseExecutor b) d w
     = (own_item (BaseExecutor b) d w, execute env (BaseExecutor b) d w)"
  "collect_data env (SimulatorExecutor b) d w
     = (own_item (SimulatorExecutor b) d w, execute env (SimulatorExecutor b) d w)"
  by (simp_all add: own_item_def del: execute.simps)

lemma collect_drained:
  "snd (collect_data env ex d w) = execute env ex d w"
  "snd (collect_loop env b1 inner strat prev acc w) = inner_loop env inner strat prev acc w"
proof (induct env ex d w and env inner strat prev acc w arbitrary: and b1 rule: execute_induct)
  case (Base env b d w)
  show ?case by simp
next
  case (Simulator env b d w)
  show ?case by simp
next
  case (Split env b inner strat d w)
  show ?case
  proof (cases "step (calendar b)")
    case (Inl e)
    then show ?thesis by (simp add: collect_data_Split_exhausted)
  next
    case (Inr c)
    obtain r0 inner0 strat0 w0 where
      i: "init_sub_trading env (b\<lparr>calendar := c\<rparr>) inner strat d w = (r0, inner0, strat0, w0)"
      by (cases "init_sub_trading env (b\<lparr>calendar := c\<rparr>) inner strat d w") auto
    show ?thesis
    proof (cases r0)
      case (Some e)
      with Inr i show ?thesis by (simp add: collect_data_Split_no_sub)
    next
      case None
      obtain ys r1 inner1 strat1 w1 where
        l: "collect_loop env (b\<lparr>calendar := c\<rparr>) inner0 strat0 None [] w0 =
              (ys, r1, inner1, strat1, w1)"
        by (cases "collect_loop env (b\<lparr>calendar := c\<rparr>) inner0 strat0 None [] w0") auto
      from Split[OF Inr i[unfolded None], of "b\<lparr>calendar := c\<rparr>"] l
      have "inner_loop env inner0 strat0 None [] w0 = (r1, inner1, strat1, w1)" by simp
      from execute_Split_sub[OF Inr i[unfolded None] this]
        collect_data_Split_sub[OF Inr i[unfolded None] l]
      show ?thesis by simp
    qed
  qed
next
  case (Loop env inner strat prev acc w)
  show ?case
  proof (cases "finished inner")
    case True
    then show ?thesis by (simp add: collect_loop_finished inner_loop_finished)
  next
    case False
    obtain dec strat1 w1 where
      g: "generate_trade_decision env strat prev (get_level_infra inner) w = (dec, strat1, w1)"
      by (cases "generate_trade_decision env strat prev (get_level_infra inner) w") auto
    obtain ys r inner1 w2 where c: "collect_data env inner dec w1 = (ys, r, inner1, w2)"
      by (cases "collect_data env inner dec w1") auto
    from Loop(1)[OF False g] c have e: "execute env inner dec w1 = (r, inner1, w2)" by simp
    show ?thesis
    proof (cases r)
      case (Inl err)
      with collect_loop_step[OF False g c] inner_loop_step[OF False g e] show ?thesis by simp
    next
      case (Inr res)
      with collect_loop_step[OF False g c, of b1 acc] inner_loop_step[OF False g e, of acc]
        Loop(2)[OF False g e[unfolded Inr], of b1]
      show ?thesis by simp
    qed
  qed
qed

lemma collect_first_item:
  "\<exists>ys. fst (collect_data env ex d w) = own_item ex d w @ ys"
proof (cases ex)
  case (BaseExecutor b)
  then show ?thesis by (simp add: collect_data_leaf del: collect_data.simps)
next
  case (SimulatorExecutor b)
  then show ?thesis by (simp add: collect_data_leaf del: collect_data.simps)
next
  case (SplitExecutor b inner strat)
  show ?thesis
  proof (cases "step (calendar b)")
    case (Inl e)
    with SplitExecutor show ?thesis by (simp add: collect_data_Split_exhausted del: collect_data.simps)
  next
    case (Inr c)
    obtain r0 inner0 strat0 w0 where
      i: "init_sub_trading env (b\<lparr>calendar := c\<rparr>) inner strat d w = (r0, inner0, strat0, w0)"
      by (cases "init_sub_trading env (b\<lparr>calendar := c\<rparr>) inner strat d w") auto
    show ?thesis
    proof (cases r0)
      case (Some e)
      with Inr i SplitExecutor show ?thesis by (simp add: collect_data_Split_no_sub del: collect_data.simps)
    next
      case None
      obtain ys r1 inner1 strat1 w1 where
        l: "collect_loop env (b\<lparr>calendar := c\<rparr>) inner0 strat0 None [] w0 =
              (ys, r1, inner1, strat1, w1)"
        by (cases "collect_loop env (b\<lparr>calendar := c\<rparr>) inner0 strat0 None [] w0") auto
      from collect_data_Split_sub[OF Inr i[unfolded None] l] SplitExecutor
      show ?thesis by (simp del: collect_data.simps)
    qed
  qed
qed

lemma fst_suspended_in [simp]: "fst \<circ> suspended_in b strat = fst"
  by (auto simp: suspended_in_def fun_eq_iff)

lemma map_fst_own_item [simp]:
  "map fst (own_item ex d w) = (if track_data (attrs ex) then [d] else [])"
  by (simp add: own_item_def)

lemma loop_decisions_finished:
  "finished inner \<Longrightarrow> loop_decisions env inner strat prev w = []"
  by (subst loop_decisions.simps) simp

lemma loop_decisions_step:
  assumes "\<not> finished inner"
    and "generate_trade_decision env strat prev (get_level_infra inner) w = (dec, strat1, w1)"
    and "execute env inner dec w1 = (r, inner1, w2)"
  shows "loop_decisions env inner strat prev w =
           decisions env inner dec w1 @
           (case r of Inl e \<Rightarrow> [] | Inr res \<Rightarrow> loop_decisions env inner1 strat1 (Some res) w2)"
  using assms
  by (subst loop_decisions.simps) (simp del: execute.simps split: sum.splits)

lemma collect_decisions:
  "map fst (fst (collect_data env ex d w)) = map snd (filter fst (decisions env ex d w))"
  "map fst (fst (collect_loop env b1 inner strat prev acc w))
     = map snd (filter fst (loop_decisions env inner strat prev w))"
proof (induct env ex d w and env inner strat prev acc w arbitrary: and b1 rule: execute_induct)
  case (Base env b d w)
  show ?case by (simp add: collect_data_leaf del: collect_data.simps execute.simps)
next
  case (Simulator env b d w)
  show ?case by (simp add: collect_data_leaf del: collect_data.simps execute.simps)
next
  case (Split env b inner strat d w)
  show ?case
  proof (cases "step (calendar b)")
    case (Inl e)
    then show ?thesis by (simp add: collect_data_Split_exhausted del: collect_data.simps)
  next
    case (Inr c)
    obtain r0 inner0 strat0 w0 where
      i: "init_sub_trading env (b\<lparr>calendar := c\<rparr>) inner strat d w = (r0, inner0, strat0, w0)"
      by (cases "init_sub_trading env (b\<lparr>calendar := c\<rparr>) inner strat d w") auto
    show ?thesis
    proof (cases r0)
      case (Some e)
      with Inr i show ?thesis by (simp add: collect_data_Split_no_sub del: collect_data.simps)
    next
      case None
      obtain ys r1 inner1 strat1 w1 where
        l: "collect_loop env (b\<lparr>calendar := c\<rparr>) inner0 strat0 None [] w0 =
              (ys, r1, inner1, strat1, w1)"
        by (cases "collect_loop env (b\<lparr>calendar := c\<rparr>) inner0 strat0 None [] w0") auto
      from Split[OF Inr i[unfolded None], of "b\<lparr>calendar := c\<rparr>"] l
      have "map fst ys = map snd (filter fst (loop_decisions env inner0 strat0 None w0))" by simp
      with collect_data_Split_sub[OF Inr i[unfolded None] l] Inr i None
      show ?thesis by simp
    qed
  qed
next
  case (Loop env inner strat prev acc w)
  show ?case
  proof (cases "finished inner")
    case True
    then show ?thesis by (simp add: collect_loop_finished loop_decisions_finished)
  next
    case False
    obtain dec strat1 w1 where
      g: "generate_trade_decision env strat prev (get_level_infra inner) w = (dec, strat1, w1)"
      by (cases "generate_trade_decision env strat prev (get_level_infra inner) w") auto
    obtain ys r inner1 w2 where c: "collect_data env inner dec w1 = (ys, r, inner1, w2)"
      by (cases "collect_data env inner dec w1") auto
    from collect_drained(1)[of env inner dec w1] c
    have e: "execute env inner dec w1 = (r, inner1, w2)" by simp
    from Loop(1)[OF False g] c
    have ys: "map fst ys = map snd (filter fst (decisions env inner dec w1))" by simp
    show ?thesis
    proof (cases r)
      case (Inl err)
      with collect_loop_step[OF False g c, of b1 acc] loop_decisions_step[OF False g e] ys
      show ?thesis by simp
    next
      case (Inr res)
      with collect_loop_step[OF False g c, of b1 acc] loop_decisions_step[OF False g e] ys
        Loop(2)[OF False g e[unfolded Inr], of b1]
      show ?thesis by simp
    qed
  qed
qed

text \<open>
  Over a leaf executor the decisions of the loop are the decisions of its iterations, one for
  each, in order.
\<close>

lemma decisions_leaf:
  "depth ex = 0 \<Longrightarrow> decisions env ex d w = [(track_data (attrs ex), d)]"
  by (cases ex) simp_all

lemma sub_trading_decisions:
  assumes "sub_trading env inner strat prev w its inner' strat' w'" and "depth inner = 0"
  shows "loop_decisions env inner strat prev w
           = map (\<lambda>i. (track_data (attrs inner), decided i)) its"
  using assms
proof (induction rule: sub_trading.induct)
  case (finished inner strat prev w)
  then show ?case by (simp add: loop_decisions_finished)
next
  case (failed inner strat prev w dec strat1 w1 e inner1 w2)
  from loop_decisions_step[OF failed(1,2,3)] failed(4) show ?case
    by (simp add: decisions_leaf del: decisions.simps)
next
  case (iterated inner strat prev w dec strat1 w1 r inner1 w2 its inner' strat' w')
  from execute_inner_loop_progress(1)[of env inner dec w1] iterated(3,6)
  have d: "depth inner1 = 0" by simp
  from execute_inner_loop_levels(1)[of env inner dec w1] iterated(3)
  have "levels inner1 = levels inner" by simp
  with hd_levels[of inner1] hd_levels[of inner]
  have t: "track_data (attrs inner1) = track_data (attrs inner)" by (simp add: settings_def)
  from loop_decisions_step[OF iterated(1,2,3)] iterated(5)[OF d] iterated(6) t show ?case
    by (simp add: decisions_leaf del: decisions.simps)
qed

text \<open>
  C5. As stated the claim fails in its last part: a sub-decision is yielded by the generator of
  the inner executor, and only when \<^verbatim>\<open>track_data\<close> is set on that executor. Here the outer
  executor tracks and the inner one does not; the loop makes two iterations with the
  sub-decision \<^verbatim>\<open>[buy_order]\<close>, these are the decisions generated along the way, and the
  sequence yielded holds the outer decision only.
\<close>

theorem collect_data_skips_untracked_sub_decisions:
  "map fst (fst (collect_data log_env nested_executor [buy_order, void_order] []))
     = [[buy_order, void_order]]
   \<and> map snd (decisions log_env nested_executor [buy_order, void_order] [])
     = [[buy_order, void_order], [buy_order], [buy_order]]
   \<and> init_sub_trading log_env (split_fields\<lparr>calendar := day_calendar\<lparr>current_index := 1\<rparr>\<rparr>)
          (SimulatorExecutor halfday_fields) [] [buy_order, void_order] []
        = (None, started_inner, [buy_order], [])
   \<and> sub_trading log_env started_inner [buy_order] None []
        [Iteration 0 None [buy_order] (Inr [(buy_order, 100, 0, 1)]),
         Iteration 1 (Some [(buy_order, 100, 0, 1)]) [buy_order] (Inr [(buy_order, 100, 0, 1)])]
        finished_inner [buy_order]
        [Dealt 0 buy_order 1, BarCount 1, BarReport 1 0 1 0,
         Dealt 0 buy_order 1, BarCount 1, BarReport 1 1 2 0]
   \<and> [buy_order] \<notin> set (map fst (fst (collect_data log_env nested_executor
                                           [buy_order, void_order] [])))"
  by code_simp

text \<open>
  C5, amended. Run to its end, \<^verbatim>\<open>collect_data\<close> returns the result of \<^verbatim>\<open>execute\<close> and
  leaves the executor and the world that \<^verbatim>\<open>execute\<close> leaves. The finite sequence it yields
  is the sequence of the decisions generated along the way that are handed to a level on which
  \<^verbatim>\<open>track_data\<close> is set, in the order in which they are generated, and no others. Its
  first item is the decision itself, seen with the executor and the world untouched, when
  \<^verbatim>\<open>track_data\<close> is set on the executor; for a leaf executor that is all of it.
\<close>

theorem collect_data_drained_is_execute:
  "snd (collect_data env ex d w) = execute env ex d w
   \<and> map fst (fst (collect_data env ex d w)) = map snd (filter fst (decisions env ex d w))
   \<and> (\<exists>ys. fst (collect_data env ex d w)
             = (if track_data (attrs ex) then [(d, ex, w)] else []) @ ys)
   \<and> fst (collect_data env (SimulatorExecutor b) d w)
       = (if track_data b then [(d, SimulatorExecutor b, w)] else [])"
  using collect_drained(1)[of env ex d w] collect_first_item[of env ex d w]
    collect_decisions(1)[of env ex d w]
  by (simp add: own_item_def del: collect_data.simps execute.simps decisions.simps)
     (simp add: collect_data_leaf own_item_def del: execute.simps)

theorem collect_data_drained_is_execute_witness:
  "map fst (fst (collect_data log_env tracked_executor [buy_order, void_order] []))
     = [[buy_order, void_order], [buy_order], [buy_order]]
   \<and> map fst (fst (collect_data log_env untracked_executor [buy_order, void_order] [])) = []
   \<and> snd (collect_data log_env tracked_executor [buy_order, void_order] [])
       = execute log_env tracked_executor [buy_order, void_order] []"
proof -
  have t: "map snd (filter fst (decisions log_env tracked_executor [buy_order, void_order] []))
             = [[buy_order, void_order], [buy_order], [buy_order]]"
    by code_simp
  have u: "map snd (filter fst (decisions log_env untracked_executor [buy_order, void_order] []))
             = []"
    by code_simp
  from collect_data_drained_is_execute[of log_env tracked_executor "[buy_order, void_order]" "[]"]
    collect_data_drained_is_execute[of log_env untracked_executor "[buy_order, void_order]" "[]"]
    t u
  show ?thesis by (simp del: collect_data.simps execute.simps decisions.simps)
qed

text \<open>
  C4. As stated the claim fails: the body of a generator runs only as far as it is consumed. A
  consumer that stops after the first item of a tracking leaf executor finds the executor and
  the world untouched, while draining steps the calendar, deals the order and updates the
  account.
\<close>

theorem collect_data_abandoned_early:
  "abandoned 1 log_env (SimulatorExecutor leaf_fields) [buy_order] []
     = Some (SimulatorExecutor leaf_fields, [])
   \<and> snd (drained log_env (SimulatorExecutor leaf_fields) [buy_order] [])
     = (SimulatorExecutor (leaf_fields\<lparr>calendar := day_calendar\<lparr>current_index := 1\<rparr>\<rparr>),
        [Dealt 0 buy_order 1, BarCount 1, BarReport 1 0 2 0])
   \<and> abandoned 1 log_env (SimulatorExecutor leaf_fields) [buy_order] []
     \<noteq> Some (snd (drained log_env (SimulatorExecutor leaf_fields) [buy_order] []))"
  by code_simp

text \<open>
  C4, amended. A consumer that never starts the sequence, or that stops at the first item of
  an executor with \<^verbatim>\<open>track_data\<close> set, leaves the executor and the world as they were: no
  calendar step, no dealing and no account update has happened. Only draining the sequence
  leaves the state that \<^verbatim>\<open>execute\<close> leaves.
\<close>

theorem collect_data_abandoned:
  "abandoned 0 env ex d w = Some (ex, w)
   \<and> (track_data (attrs ex) \<longrightarrow> abandoned 1 env ex d w = Some (ex, w))
   \<and> drained env ex d w = execute env ex d w"
  using collect_drained(1)[of env ex d w] collect_first_item[of env ex d w]
  by (auto simp: abandoned_def drained_def own_item_def simp del: collect_data.simps execute.simps)

theorem collect_data_abandoned_witness:
  "track_data (attrs (SimulatorExecutor leaf_fields))
   \<and> abandoned 1 log_env (SimulatorExecutor leaf_fields) [buy_order] []
       = Some (SimulatorExecutor leaf_fields, [])
   \<and> drained log_env (SimulatorExecutor leaf_fields) [buy_order] []
       = execute log_env (SimulatorExecutor leaf_fields) [buy_order] []"
proof -
  have t: "track_data (attrs (SimulatorExecutor leaf_fields))" by (simp add: leaf_fields_def)
  from collect_data_abandoned[of log_env "SimulatorExecutor leaf_fields" "[buy_order]" "[]"] t
  show ?thesis by (simp del: execute.simps collect_data.simps)
qed

subsection \<open>The dict of \<^verbatim>\<open>common_infra\<close>\<close>

text \<open>
  An executor keeps the first dict it is given and updates it in place with every later one:
  after two calls of \<^verbatim>\<open>reset_common_infra\<close>, with the first and then with the second dict of
  the caller, both levels of the nested executor refer to the first dict, which now holds the
  item of the second.
\<close>

lemma reset_common_infra_in_place:
  "(case reset_common_infra dict_env 0 nested_executor caller_dicts of
      (ex1, w1) \<Rightarrow>
        (case reset_common_infra dict_env 1 ex1 w1 of
           (ex2, w2) \<Rightarrow> (map (\<lambda>(k, f, g, v, t, ci, a, x). (ci, x)) (levels ex2), w2)))
   = ([(Some 0, Some 8), (Some 0, Some 8)],
      [[(''trade_exchange'', 8)], [(''trade_exchange'', 8)]])"
  by code_simp

end
